theory Spec2Isabelle
  imports Main "HOL-Library.Word" "HOL-Library.Signed_Division"
begin

unbundle bit_operations_syntax

section \<open>Device identity: \<^verbatim>\<open>build_guid\<close>\<close>

text \<open>
  \<^verbatim>\<open>struct input_id\<close> of the Linux input layer: four unsigned 16-bit fields.
\<close>

record input_id =
  bustype :: "16 word"
  vendor :: "16 word"
  product :: "16 word"
  version :: "16 word"

text \<open>\<^verbatim>\<open>static const char hex[] = "0123456789abcdef";\<close>\<close>

definition hex :: string where
  "hex = ''0123456789abcdef''"

text \<open>
  The sixteen assignments \<^verbatim>\<open>guid[0] = id->bustype & 0xFF; guid[1] = (id->bustype >> 8) & 0xFF;
  guid[2] = 0; ...\<close> of \<^verbatim>\<open>build_guid\<close> (gamepad_guid.c 96-111, gamepad_map.c 510-521).
  The right-hand sides are computed on the promoted 16-bit value and stored into an
  \<^verbatim>\<open>unsigned char\<close>.
\<close>

definition guid_array :: "'a input_id_scheme \<Rightarrow> 8 word list" where
  "guid_array i =
     [ucast (bustype i AND 0xFF), ucast (drop_bit 8 (bustype i) AND 0xFF), 0, 0,
      ucast (vendor i AND 0xFF), ucast (drop_bit 8 (vendor i) AND 0xFF), 0, 0,
      ucast (product i AND 0xFF), ucast (drop_bit 8 (product i) AND 0xFF), 0, 0,
      ucast (version i AND 0xFF), ucast (drop_bit 8 (version i) AND 0xFF), 0, 0]"

text \<open>
  The loop \<^verbatim>\<open>for (i = 0; i < 16; i++) { guid_str[i*2] = hex[guid[i] >> 4];
  guid_str[i*2+1] = hex[guid[i] & 0x0F]; }\<close>, as a recursion over the bytes still to be
  rendered. The result is the C string without its terminating NUL.
\<close>

fun guid_loop :: "8 word list \<Rightarrow> string" where
  "guid_loop [] = []"
| "guid_loop (g # gs) = hex ! unat (drop_bit 4 g) # hex ! unat (g AND 0x0F) # guid_loop gs"

definition build_guid :: "'a input_id_scheme \<Rightarrow> string" where
  "build_guid i = guid_loop (guid_array i)"

subsection \<open>The layout in the words of the specification\<close>

text \<open>
  The specification's rendering, on natural numbers: a 16-bit field is laid out low byte
  first, a byte is printed as two lowercase hexadecimal digits, high digit first.
\<close>

definition hex_digit :: "nat \<Rightarrow> char" where
  "hex_digit d = (if d < 10 then char_of (48 + d) else char_of (87 + d))"

definition hex_of_byte :: "nat \<Rightarrow> string" where
  "hex_of_byte b = [hex_digit (b div 16), hex_digit (b mod 16)]"

definition little_endian16 :: "nat \<Rightarrow> nat list" where
  "little_endian16 n = [n mod 256, n div 256]"

definition guid_layout :: "nat \<Rightarrow> nat \<Rightarrow> nat \<Rightarrow> nat \<Rightarrow> nat list" where
  "guid_layout b v p r =
     little_endian16 b @ [0, 0] @ little_endian16 v @ [0, 0] @
     little_endian16 p @ [0, 0] @ little_endian16 r @ [0, 0]"

definition guid_spec :: "nat \<Rightarrow> nat \<Rightarrow> nat \<Rightarrow> nat \<Rightarrow> string" where
  "guid_spec b v p r = concat (map hex_of_byte (guid_layout b v p r))"


section \<open>Capability bit-fields and the capability prober\<close>

text \<open>
  Event types and codes of the Linux input layer (\<^verbatim>\<open>linux/input.h\<close>, which both programs
  include), with the values of the kernel header. The comment of \<^verbatim>\<open>is_gamepad\<close> in
  gamepad_guid.c gives the two button ranges as 0x120-0x12f and 0x130-0x13f.
\<close>

definition EV_KEY :: nat where "EV_KEY = 0x01"
definition EV_ABS :: nat where "EV_ABS = 0x03"
definition EV_MAX :: nat where "EV_MAX = 0x1f"
definition ABS_X :: nat where "ABS_X = 0x00"
definition ABS_Y :: nat where "ABS_Y = 0x01"
definition ABS_HAT0X :: nat where "ABS_HAT0X = 0x10"
definition ABS_HAT3Y :: nat where "ABS_HAT3Y = 0x17"
definition ABS_MAX :: nat where "ABS_MAX = 0x3f"
definition BTN_MISC :: nat where "BTN_MISC = 0x100"
definition BTN_JOYSTICK :: nat where "BTN_JOYSTICK = 0x120"
definition BTN_GAMEPAD :: nat where "BTN_GAMEPAD = 0x130"
definition KEY_MAX :: nat where "KEY_MAX = 0x2ff"

text \<open>
  A bit-field is an array of \<^verbatim>\<open>unsigned long\<close>; the type variable \<open>'w\<close> is the width of
  \<^verbatim>\<open>long\<close> (32 on the ARM target, 64 on the host), so \<^verbatim>\<open>BITS_PER_LONG\<close> is
  \<open>LENGTH('w)\<close>.
  \<^verbatim>\<open>#define NBITS(x) ((((x) - 1) / BITS_PER_LONG) + 1)\<close>
  \<^verbatim>\<open>#define TEST_BIT(bit, array) ((array[(bit) / BITS_PER_LONG] >> ((bit) % BITS_PER_LONG)) & 1)\<close>
  Every use of \<^verbatim>\<open>TEST_BIT\<close> in the programs reads a buffer of \<^verbatim>\<open>NBITS(x)\<close> words at a bit
  below \<open>x\<close>, which is inside the buffer (lemma \<open>NBITS_index\<close>).
\<close>

definition NBITS :: "'w::len itself \<Rightarrow> nat \<Rightarrow> nat" where
  "NBITS w x = (x - 1) div LENGTH('w) + 1"

definition TEST_BIT :: "nat \<Rightarrow> 'w::len word list \<Rightarrow> 'w word" where
  "TEST_BIT b a = drop_bit (b mod LENGTH('w)) (a ! (b div LENGTH('w))) AND 1"

text \<open>
  What an open event device answers to the queries the programs make. Each field is the
  outcome of one \<^verbatim>\<open>ioctl\<close>; \<open>None\<close> is a negative return value.
  \<^item> \<open>ev_bits\<close>: \<^verbatim>\<open>EVIOCGBIT(0, ...)\<close>, the event types;
  \<^item> \<open>abs_bits\<close>: \<^verbatim>\<open>EVIOCGBIT(EV_ABS, ...)\<close>; \<open>key_bits\<close>: \<^verbatim>\<open>EVIOCGBIT(EV_KEY, ...)\<close>;
  \<^item> \<open>abs_info\<close>: \<^verbatim>\<open>EVIOCGABS(i)\<close>, the pair (minimum, maximum) of axis \<open>i\<close>;
  \<^item> \<open>dev_id\<close>: \<^verbatim>\<open>EVIOCGID\<close>; \<open>dev_name\<close>: \<^verbatim>\<open>EVIOCGNAME\<close>.
  The type \<open>'f\<close> of a bit-field is \<open>'w word list\<close> in every use.
\<close>

record 'f evdev =
  ev_bits :: "'f option"
  abs_bits :: "'f option"
  key_bits :: "'f option"
  abs_info :: "nat \<Rightarrow> (int \<times> int) option"
  dev_id :: "input_id option"
  dev_name :: "string option"

text \<open>
  \<^verbatim>\<open>memset(buf, 0, sizeof(buf)); ioctl(fd, EVIOCGBIT(t, sizeof(buf)), buf)\<close> on a buffer of
  \<open>n\<close> words: whether the call succeeded, and the buffer afterwards. The kernel copies
  at most \<open>n\<close> words; what it does not write stays zero.
\<close>

definition read_bits :: "nat \<Rightarrow> 'w::len word list option \<Rightarrow> bool \<times> 'w word list" where
  "read_bits n r =
     (case r of
        None \<Rightarrow> (False, replicate n 0)
      | Some ws \<Rightarrow> (True, take n ws @ replicate (n - length ws) 0))"

text \<open>
  The loop \<^verbatim>\<open>for (i = first; i < last; i++) if (TEST_BIT(i, keybits)) return 1;\<close> of
  \<^verbatim>\<open>is_gamepad\<close>: true when it returns 1, false when it runs to its end.
\<close>

function button_in_range :: "nat \<Rightarrow> nat \<Rightarrow> 'w::len word list \<Rightarrow> bool" where
  "button_in_range i n keybits =
     (if i < n then (if TEST_BIT i keybits \<noteq> 0 then True else button_in_range (Suc i) n keybits)
      else False)"
  by pat_completeness auto
termination
  by (relation "measure (\<lambda>(i, n, k). n - i)") auto

declare button_in_range.simps [simp del]

text \<open>
  \<^verbatim>\<open>is_gamepad\<close> (gamepad_guid.c 36-72, gamepad_map.c 534-561; the two copies are the same
  code). The result \<^verbatim>\<open>1\<close> is \<open>True\<close>.
\<close>

definition is_gamepad :: "('w::len word list, 'a) evdev_scheme \<Rightarrow> bool" where
  "is_gamepad d =
     (let (ev_ok, evbits) = read_bits (NBITS TYPE('w) EV_MAX) (ev_bits d) in
      if \<not> ev_ok then False
      else
        let (abs_ok, absbits) = read_bits (NBITS TYPE('w) ABS_MAX) (abs_bits d);
            (key_ok, keybits) = read_bits (NBITS TYPE('w) KEY_MAX) (key_bits d)
        in
          if TEST_BIT EV_ABS evbits \<noteq> 0 \<and> abs_ok \<and>
             TEST_BIT ABS_X absbits \<noteq> 0 \<and> TEST_BIT ABS_Y absbits \<noteq> 0
          then True
          else if TEST_BIT EV_KEY evbits \<noteq> 0 \<and> key_ok \<and>
             (button_in_range BTN_JOYSTICK (BTN_JOYSTICK + 16) keybits \<or>
              button_in_range BTN_GAMEPAD (BTN_GAMEPAD + 16) keybits)
          then True
          else False)"

subsection \<open>What a device reports, in the words of the specification\<close>

text \<open>
  Bit \<open>c\<close> of a bit-field a query returned: the query succeeded, the bit lies in the words
  returned, and it is set. A device reports an absolute axis (a key) when it reports the
  event type \<^verbatim>\<open>EV_ABS\<close> (\<^verbatim>\<open>EV_KEY\<close>) and the code's bit in the field of that type.
\<close>

definition field_bit :: "nat \<Rightarrow> 'w::len word list option \<Rightarrow> bool" where
  "field_bit c r =
     (case r of
        None \<Rightarrow> False
      | Some ws \<Rightarrow> c div LENGTH('w) < length ws \<and> bit (ws ! (c div LENGTH('w))) (c mod LENGTH('w)))"

definition reports_abs :: "('w::len word list, 'a) evdev_scheme \<Rightarrow> nat \<Rightarrow> bool" where
  "reports_abs d c \<longleftrightarrow> field_bit EV_ABS (ev_bits d) \<and> field_bit c (abs_bits d)"

definition reports_key :: "('w::len word list, 'a) evdev_scheme \<Rightarrow> nat \<Rightarrow> bool" where
  "reports_key d c \<longleftrightarrow> field_bit EV_KEY (ev_bits d) \<and> field_bit c (key_bits d)"

definition gamepad_spec :: "('w::len word list, 'a) evdev_scheme \<Rightarrow> bool" where
  "gamepad_spec d \<longleftrightarrow>
     reports_abs d ABS_X \<and> reports_abs d ABS_Y \<or>
     (\<exists>c \<in> set ([BTN_JOYSTICK ..< BTN_JOYSTICK + 16] @ [BTN_GAMEPAD ..< BTN_GAMEPAD + 16]).
        reports_key d c)"

section \<open>Controller records and \<^verbatim>\<open>enumerate_buttons_axes\<close>\<close>

text \<open>
  \<^verbatim>\<open>typedef struct { int fd; char path[512]; char name[256]; char guid[33];
  struct input_id id; int num_buttons, num_axes, num_hats; int btn_map[KEY_MAX];
  int abs_map[ABS_MAX]; int hat_map[ABS_MAX]; int axis_initial[ABS_MAX];
  int axis_min[ABS_MAX]; int axis_max[ABS_MAX]; } Controller;\<close>
  The arrays are lists; an entry \<open>-1\<close> of a map stands for "no index". The field
  \<^verbatim>\<open>id\<close> is called \<open>ctrl_id\<close> here.
\<close>

record controller =
  fd :: int
  path :: string
  name :: string
  guid :: string
  ctrl_id :: input_id
  num_buttons :: int
  num_axes :: int
  num_hats :: int
  btn_map :: "int list"
  abs_map :: "int list"
  hat_map :: "int list"
  axis_initial :: "int list"
  axis_min :: "int list"
  axis_max :: "int list"

text \<open>
  Signed 32-bit arithmetic: the result of an \<^verbatim>\<open>int\<close> operation, as the two's-complement
  machine computes it. C's \<^verbatim>\<open>/\<close> truncates towards zero, which is \<open>sdiv\<close>.
\<close>

definition wrap32 :: "int \<Rightarrow> int" where
  "wrap32 x = (x + 2 ^ 31) mod 2 ^ 32 - 2 ^ 31"

text \<open>
  One iteration of \<^verbatim>\<open>if (TEST_BIT(i, keybits)) c->btn_map[i] = c->num_buttons++;\<close>
\<close>

definition button_step :: "'w::len word list \<Rightarrow> nat \<Rightarrow> controller \<Rightarrow> controller" where
  "button_step keybits i c =
     (if TEST_BIT i keybits \<noteq> 0
      then c\<lparr>btn_map := (btn_map c)[i := num_buttons c], num_buttons := num_buttons c + 1\<rparr>
      else c)"

text \<open>
  \<^verbatim>\<open>memset(&absinfo, 0, sizeof(absinfo)); ioctl(c->fd, EVIOCGABS(i), &absinfo);\<close> The
  return value is not looked at: after a failed call minimum and maximum are 0.
\<close>

definition read_absinfo :: "(int \<times> int) option \<Rightarrow> int \<times> int" where
  "read_absinfo r = (case r of None \<Rightarrow> (0, 0) | Some mm \<Rightarrow> mm)"

text \<open>One iteration of the axis loop (gamepad_map.c 592-610).\<close>

definition axis_step ::
  "(nat \<Rightarrow> (int \<times> int) option) \<Rightarrow> 'w::len word list \<Rightarrow> nat \<Rightarrow> controller \<Rightarrow> controller"
where
  "axis_step info absbits i c =
     (if TEST_BIT i absbits = 0 then c
      else
        let (mn, mx) = read_absinfo (info i);
            c1 = c\<lparr>axis_min := (axis_min c)[i := mn],
                   axis_max := (axis_max c)[i := mx],
                   axis_initial := (axis_initial c)[i := wrap32 (mn + mx) sdiv 2]\<rparr>
        in
          if ABS_HAT0X \<le> i \<and> i \<le> ABS_HAT3Y then
            let h = int ((i - ABS_HAT0X) div 2);
                c2 = c1\<lparr>hat_map := (hat_map c1)[i := h]\<rparr>
            in if h \<ge> num_hats c2 then c2\<lparr>num_hats := h + 1\<rparr> else c2
          else c1\<lparr>abs_map := (abs_map c1)[i := num_axes c1], num_axes := num_axes c1 + 1\<rparr>)"

text \<open>
  \<^verbatim>\<open>enumerate_buttons_axes\<close> (gamepad_map.c 563-611) on the controller record \<open>c\<close>,
  whose descriptor is open on the device \<open>d\<close>. The \<^verbatim>\<open>memset\<close>s with \<^verbatim>\<open>0xFF\<close> set every
  entry of a map to \<open>-1\<close>; \<^verbatim>\<open>axis_min\<close> and \<^verbatim>\<open>axis_max\<close> are not reset. The return values
  of the two \<^verbatim>\<open>EVIOCGBIT\<close> calls are not looked at, so a failed call leaves the zeroed
  buffer. The three \<^verbatim>\<open>for\<close> loops are folds over their index ranges.
\<close>

definition enumerate_buttons_axes ::
  "('w::len word list, 'a) evdev_scheme \<Rightarrow> controller \<Rightarrow> controller"
where
  "enumerate_buttons_axes d c =
     (let c0 = c\<lparr>num_buttons := 0, num_axes := 0, num_hats := 0,
                 btn_map := replicate KEY_MAX (- 1),
                 abs_map := replicate ABS_MAX (- 1),
                 hat_map := replicate ABS_MAX (- 1),
                 axis_initial := replicate ABS_MAX 0\<rparr>;
          keybits = snd (read_bits (NBITS TYPE('w) KEY_MAX) (key_bits d));
          c1 = fold (button_step keybits) [BTN_JOYSTICK ..< KEY_MAX] c0;
          c2 = fold (button_step keybits) [BTN_MISC ..< BTN_JOYSTICK] c1;
          absbits = snd (read_bits (NBITS TYPE('w) ABS_MAX) (abs_bits d))
      in fold (axis_step (abs_info d) absbits) [0 ..< ABS_MAX] c2)"

subsection \<open>The index assignment, in the words of the specification\<close>

text \<open>
  \<open>count_set P a b\<close> is the number of codes in \<open>[a, b)\<close> with property \<open>P\<close>. A button's
  index is its position among the advertised buttons in scan order: the codes from
  \<^verbatim>\<open>BTN_JOYSTICK\<close> up to \<^verbatim>\<open>KEY_MAX\<close> first, the codes from \<^verbatim>\<open>BTN_MISC\<close> up to
  \<^verbatim>\<open>BTN_JOYSTICK\<close> second. An axis's index is its position among all the advertised
  axes outside the hat sub-range \<^verbatim>\<open>ABS_HAT0X..ABS_HAT3Y\<close>, whatever its code. A hat
  code's index is half its offset in the hat sub-range.
\<close>

definition count_set :: "(nat \<Rightarrow> bool) \<Rightarrow> nat \<Rightarrow> nat \<Rightarrow> nat" where
  "count_set P a b = length (filter P [a ..< b])"

definition in_hat_range :: "nat \<Rightarrow> bool" where
  "in_hat_range i \<longleftrightarrow> ABS_HAT0X \<le> i \<and> i \<le> ABS_HAT3Y"

definition button_index_spec :: "('w::len word list, 'a) evdev_scheme \<Rightarrow> nat \<Rightarrow> int" where
  "button_index_spec d i =
     (let key = (\<lambda>j. field_bit j (key_bits d)) in
      if key i \<and> BTN_JOYSTICK \<le> i \<and> i < KEY_MAX then int (count_set key BTN_JOYSTICK i)
      else if key i \<and> BTN_MISC \<le> i \<and> i < BTN_JOYSTICK
        then int (count_set key BTN_JOYSTICK KEY_MAX + count_set key BTN_MISC i)
      else - 1)"

definition num_buttons_spec :: "('w::len word list, 'a) evdev_scheme \<Rightarrow> int" where
  "num_buttons_spec d =
     (let key = (\<lambda>j. field_bit j (key_bits d)) in
      int (count_set key BTN_JOYSTICK KEY_MAX + count_set key BTN_MISC BTN_JOYSTICK))"

definition plain_axis :: "('w::len word list, 'a) evdev_scheme \<Rightarrow> nat \<Rightarrow> bool" where
  "plain_axis d j \<longleftrightarrow> field_bit j (abs_bits d) \<and> \<not> in_hat_range j"

definition axis_index_spec :: "('w::len word list, 'a) evdev_scheme \<Rightarrow> nat \<Rightarrow> int" where
  "axis_index_spec d i =
     (if plain_axis d i then int (count_set (plain_axis d) 0 i) else - 1)"

definition hat_index_spec :: "('w::len word list, 'a) evdev_scheme \<Rightarrow> nat \<Rightarrow> int" where
  "hat_index_spec d i =
     (if field_bit i (abs_bits d) \<and> in_hat_range i then int ((i - ABS_HAT0X) div 2) else - 1)"

section \<open>The device registry: \<^verbatim>\<open>scan_controllers\<close>\<close>

text \<open>The ten mapping slots, the directory browser and the application state.\<close>

datatype MapType = MAP_NONE | MAP_BUTTON | MAP_AXIS | MAP_HAT

record mapping_entry =
  the64_label :: string
  gcdb_name :: string
  is_axis :: int
  prompt :: string
  mapped_type :: MapType
  mapped_index :: int
  hat_mask :: int

text \<open>
  \<^verbatim>\<open>DirEntry\<close> and \<^verbatim>\<open>DirBrowser\<close>; the fields \<^verbatim>\<open>name\<close> and \<^verbatim>\<open>path\<close> are called
  \<open>entry_name\<close> and \<open>browser_path\<close> here, since \<open>controller\<close> has fields of these names.
\<close>

record dir_entry =
  entry_name :: string
  is_dir :: int

record dir_browser =
  browser_path :: string
  entries :: "dir_entry list"
  count :: int
  selected :: int
  scroll :: int

datatype AppState =
  STATE_DETECT | STATE_MAPPING | STATE_REVIEW | STATE_BROWSE | STATE_DONE | STATE_EXIT

text \<open>
  \<^verbatim>\<open>App\<close>, without the framebuffer, the blink and key-repeat timers, the time of the last
  scan and the keyboard descriptors: none of the functions modelled here reads or writes
  them (the keyboards' pending events are an argument of the functions that read them).
\<close>

record app =
  state :: AppState
  controllers :: "controller list"
  num_controllers :: int
  sel_ctrl :: int
  mappings :: "mapping_entry list"
  cur_map :: int
  redo_single :: int
  browser :: dir_browser
  review_sel :: int
  save_path :: string
  mapping_str :: string
  thec64_nav_idx :: int

definition MAX_CONTROLLERS :: int where "MAX_CONTROLLERS = 8"
definition MAX_PATH_LEN :: nat where "MAX_PATH_LEN = 512"
definition MAX_NAME_LEN :: nat where "MAX_NAME_LEN = 256"
definition NUM_MAPPINGS :: int where "NUM_MAPPINGS = 10"

text \<open>
  An entry of \<^verbatim>\<open>/dev/input\<close> as \<^verbatim>\<open>readdir\<close> returns it: its name, and what
  \<^verbatim>\<open>open(path, O_RDONLY | O_NONBLOCK)\<close> gives for it, the descriptor and the device behind
  it, or \<open>None\<close> when \<^verbatim>\<open>open\<close> fails (\<^verbatim>\<open>fd < 0\<close>).
\<close>

record 'f dev_node =
  d_name :: string
  node_open :: "(int \<times> 'f evdev) option"

text \<open>
  \<^verbatim>\<open>snprintf(buf, n, "%s...", ...)\<close> keeps the first \<open>n - 1\<close> characters of the text.
\<close>

definition snprintf_buf :: "nat \<Rightarrow> string \<Rightarrow> string" where
  "snprintf_buf n s = take (n - 1) s"

text \<open>\<^verbatim>\<open>memset(c, 0, sizeof(*c))\<close>\<close>

definition zero_controller :: controller where
  "zero_controller =
     \<lparr>fd = 0, path = [], name = [], guid = [],
      ctrl_id = \<lparr>bustype = 0, vendor = 0, product = 0, version = 0\<rparr>,
      num_buttons = 0, num_axes = 0, num_hats = 0,
      btn_map = replicate KEY_MAX 0, abs_map = replicate ABS_MAX 0,
      hat_map = replicate ABS_MAX 0, axis_initial = replicate ABS_MAX 0,
      axis_min = replicate ABS_MAX 0, axis_max = replicate ABS_MAX 0\<rparr>"

text \<open>
  \<^verbatim>\<open>memset(name, 0, sizeof(name)); if (ioctl(fd, EVIOCGNAME(sizeof(name) - 1), name) < 0)
  strcpy(name, fallback);\<close> with a buffer of \<open>n\<close> bytes.
\<close>

definition read_name :: "nat \<Rightarrow> string \<Rightarrow> string option \<Rightarrow> string" where
  "read_name n fallback r = (case r of None \<Rightarrow> fallback | Some s \<Rightarrow> take (n - 1) s)"

text \<open>
  The body of the \<^verbatim>\<open>while ((entry = readdir(dir)) != NULL)\<close> loop of
  \<^verbatim>\<open>scan_controllers\<close> (gamepad_map.c 628-653), as a recursion over the entries still to
  be read. The first branch is the \<^verbatim>\<open>break\<close>; a branch that goes on with \<open>es\<close> and the
  unchanged state is a \<^verbatim>\<open>continue\<close>. \<^verbatim>\<open>close(fd)\<close> changes nothing in the state modelled.
  The slot \<^verbatim>\<open>controllers[num_controllers]\<close> is written before \<^verbatim>\<open>EVIOCGID\<close> is tried, and
  stays written when that call fails.
\<close>

fun scan_loop :: "('w::len word list) dev_node list \<Rightarrow> app \<Rightarrow> app" where
  "scan_loop [] a = a"
| "scan_loop (e # es) a =
     (if num_controllers a \<ge> MAX_CONTROLLERS then a
      else if length (d_name e) \<le> 5 then scan_loop es a
      else if take 5 (d_name e) \<noteq> ''event'' then scan_loop es a
      else
        let p = snprintf_buf MAX_PATH_LEN (''/dev/input/'' @ d_name e) in
        case node_open e of
          None \<Rightarrow> scan_loop es a
        | Some (f, dev) \<Rightarrow>
            if \<not> is_gamepad dev then scan_loop es a
            else
              let n = nat (num_controllers a);
                  c = zero_controller\<lparr>fd := f, path := snprintf_buf MAX_PATH_LEN p\<rparr>;
                  a1 = a\<lparr>controllers := (controllers a)[n := c]\<rparr>
              in
                case dev_id dev of
                  None \<Rightarrow> scan_loop es a1
                | Some i \<Rightarrow>
                    let c1 = c\<lparr>ctrl_id := i,
                               name := read_name MAX_NAME_LEN ''Unknown Controller'' (dev_name dev)\<rparr>;
                        c2 = c1\<lparr>guid := build_guid i\<rparr>;
                        c3 = enumerate_buttons_axes dev c2
                    in scan_loop es
                         (a1\<lparr>controllers := (controllers a1)[n := c3],
                             num_controllers := num_controllers a1 + 1\<rparr>))"

text \<open>
  \<^verbatim>\<open>scan_controllers\<close>: \<open>dir\<close> is what \<^verbatim>\<open>opendir("/dev/input")\<close> and the \<^verbatim>\<open>readdir\<close> calls
  give, \<open>None\<close> when the directory cannot be opened. Closing the descriptors of the
  previous scan changes nothing in the state modelled.
\<close>

definition scan_controllers :: "('w::len word list) dev_node list option \<Rightarrow> app \<Rightarrow> app" where
  "scan_controllers dir a =
     (let a0 = a\<lparr>num_controllers := 0\<rparr> in
      case dir of None \<Rightarrow> a0 | Some es \<Rightarrow> scan_loop es a0)"

subsection \<open>The registry, in the words of the claim\<close>

text \<open>
  The registered records are the first \<^verbatim>\<open>num_controllers\<close> slots. A directory entry is
  a detected gamepad when its name is longer than five characters and starts with
  \<^verbatim>\<open>event\<close>, it can be opened, \<^verbatim>\<open>is_gamepad\<close> holds of it and its identity can be read.
\<close>

definition registered :: "app \<Rightarrow> controller list" where
  "registered a = take (nat (num_controllers a)) (controllers a)"

definition detected :: "('w::len word list) dev_node \<Rightarrow> bool" where
  "detected e \<longleftrightarrow>
     5 < length (d_name e) \<and> take 5 (d_name e) = ''event'' \<and>
     (case node_open e of
        None \<Rightarrow> False
      | Some (f, dev) \<Rightarrow> is_gamepad dev \<and> dev_id dev \<noteq> None)"

definition node_path :: "('w::len word list) dev_node \<Rightarrow> string" where
  "node_path e = take 511 (''/dev/input/'' @ d_name e)"

definition controller_of :: "('w::len word list) dev_node \<Rightarrow> controller" where
  "controller_of e =
     (case node_open e of
        None \<Rightarrow> zero_controller
      | Some (f, dev) \<Rightarrow>
          (case dev_id dev of
             None \<Rightarrow> zero_controller
           | Some i \<Rightarrow>
               enumerate_buttons_axes dev
                 (zero_controller\<lparr>fd := f, path := node_path e, ctrl_id := i,
                    name := (case dev_name dev of
                               None \<Rightarrow> ''Unknown Controller'' | Some s \<Rightarrow> take 255 s),
                    guid := build_guid i\<rparr>)))"

section \<open>The standalone identity tool (gamepad_guid.c, \<^verbatim>\<open>main\<close>)\<close>

text \<open>
  The loop over the directory entries (gamepad_guid.c 137-170). The state is what has
  been written to standard output so far and the counter \<^verbatim>\<open>found\<close>. Each \<^verbatim>\<open>continue\<close>
  goes on with the next entry and the same state.
  \<^verbatim>\<open>printf("%s,%s,%s\n", guid_str, name, path); found++;\<close>
\<close>

fun guid_tool_loop :: "('w::len word list) dev_node list \<Rightarrow> string \<times> int \<Rightarrow> string \<times> int" where
  "guid_tool_loop [] st = st"
| "guid_tool_loop (e # es) (out, found) =
     (if length (d_name e) \<le> 5 then guid_tool_loop es (out, found)
      else if take 5 (d_name e) \<noteq> ''event'' then guid_tool_loop es (out, found)
      else
        let p = snprintf_buf 512 (''/dev/input/'' @ d_name e) in
        case node_open e of
          None \<Rightarrow> guid_tool_loop es (out, found)
        | Some (f, dev) \<Rightarrow>
            if \<not> is_gamepad dev then guid_tool_loop es (out, found)
            else
              case dev_id dev of
                None \<Rightarrow> guid_tool_loop es (out, found)
              | Some i \<Rightarrow>
                  let nm = read_name 256 ''Unknown'' (dev_name dev);
                      guid_str = build_guid i
                  in guid_tool_loop es
                       (out @ guid_str @ '','' @ nm @ '','' @ p @ [CHR 0x0A], found + 1))"

text \<open>
  \<^verbatim>\<open>main\<close>: the exit status and the text written to standard output. When
  \<^verbatim>\<open>opendir\<close> fails the program writes a message to standard error with \<^verbatim>\<open>perror\<close>
  and returns 1.
\<close>

definition guid_tool_main :: "('w::len word list) dev_node list option \<Rightarrow> int \<times> string" where
  "guid_tool_main dir =
     (case dir of
        None \<Rightarrow> (1, [])
      | Some es \<Rightarrow>
          let (out, found) = guid_tool_loop es ([], 0) in
          if found = 0 then (0, out @ ''No game controllers found.'' @ [CHR 0x0A])
          else (0, out))"

subsection \<open>The tool's output, in the words of the specification\<close>

definition guid_tool_line :: "('w::len word list) dev_node \<Rightarrow> string" where
  "guid_tool_line e =
     (case node_open e of
        None \<Rightarrow> []
      | Some (f, dev) \<Rightarrow>
          (case dev_id dev of
             None \<Rightarrow> []
           | Some i \<Rightarrow>
               build_guid i @ '','' @
               (case dev_name dev of None \<Rightarrow> ''Unknown'' | Some s \<Rightarrow> take 255 s) @ '','' @
               node_path e @ [CHR 0x0A]))"

text \<open>
  The entries the scan looks at: those of the directory, none when the directory cannot
  be opened. \<open>guid_tool_report\<close> is the standard output the specification describes:
  one line for each detected gamepad, and the message of the empty scan exactly when no
  gamepad is detected.
\<close>

definition scanned :: "'e list option \<Rightarrow> 'e list" where
  "scanned dir = (case dir of None \<Rightarrow> [] | Some es \<Rightarrow> es)"

definition guid_tool_report :: "('w::len word list) dev_node list \<Rightarrow> string" where
  "guid_tool_report es =
     concat (map guid_tool_line (filter detected es)) @
     (if filter detected es = [] then ''No game controllers found.'' @ [CHR 0x0A] else [])"

section \<open>The mapping wizard\<close>

text \<open>\<^verbatim>\<open>init_mappings\<close> (gamepad_map.c 824-846): the ten slots, all unbound.\<close>

definition new_entry :: "string \<Rightarrow> string \<Rightarrow> int \<Rightarrow> string \<Rightarrow> mapping_entry" where
  "new_entry label gcdb ax pr =
     \<lparr>the64_label = label, gcdb_name = gcdb, is_axis = ax, prompt = pr,
      mapped_type = MAP_NONE, mapped_index = 0, hat_mask = 0\<rparr>"

definition init_mappings :: "mapping_entry list" where
  "init_mappings =
     [new_entry ''Left Fire'' ''lefttrigger'' 0 ''Press LEFT FIRE button'',
      new_entry ''Right Fire'' ''righttrigger'' 0 ''Press RIGHT FIRE button'',
      new_entry ''Left Triangle'' ''x'' 0 ''Press LEFT TRIANGLE button'',
      new_entry ''Right Triangle'' ''y'' 0 ''Press RIGHT TRIANGLE button'',
      new_entry ''Menu 1'' ''a'' 0 ''Press MENU 1 button'',
      new_entry ''Menu 2'' ''b'' 0 ''Press MENU 2 button'',
      new_entry ''Menu 3'' ''back'' 0 ''Press MENU 3 button'',
      new_entry ''Menu 4'' ''start'' 0 ''Press MENU 4 button'',
      new_entry ''Left/Right'' ''leftx'' 1 ''Move stick LEFT or RIGHT'',
      new_entry ''Up/Down'' ''lefty'' 1 ''Move stick UP or DOWN'']"

text \<open>
  The state \<^verbatim>\<open>main\<close> starts from (gamepad_map.c 1812-1828):
  \<^verbatim>\<open>memset(&app, 0, sizeof(app))\<close>, then the six assignments.
\<close>

definition initial_app :: app where
  "initial_app =
     \<lparr>state = STATE_DETECT,
      controllers = replicate 8 zero_controller,
      num_controllers = 0,
      sel_ctrl = - 1,
      mappings = init_mappings,
      cur_map = 0,
      redo_single = - 1,
      browser = \<lparr>browser_path = [],
                 entries = replicate 256 \<lparr>entry_name = [], is_dir = 0\<rparr>,
                 count = 0, selected = 0, scroll = 0\<rparr>,
      review_sel = 0,
      save_path = [],
      mapping_str = [],
      thec64_nav_idx = - 1\<rparr>"

section \<open>Input events\<close>

text \<open>
  \<^verbatim>\<open>struct input_event\<close>: type and code are unsigned 16-bit, the value is a signed 32-bit
  integer. The time stamp is never read.
\<close>

record input_event =
  ev_type :: "16 word"
  ev_code :: "16 word"
  ev_value :: int

text \<open>
  Reading an array outside its declared size is undefined behaviour in C; the model
  returns the error \<open>OutOfBounds\<close> there. \<open>arr_read xs n i\<close> is \<^verbatim>\<open>xs[i]\<close> for an array
  declared with \<open>n\<close> elements.
\<close>

datatype error = OutOfBounds

definition arr_read :: "'a list \<Rightarrow> nat \<Rightarrow> nat \<Rightarrow> error + 'a" where
  "arr_read xs n i = (if i < n then Inr (xs ! i) else Inl OutOfBounds)"

text \<open>
  The threshold and the deflection, which \<^verbatim>\<open>poll_mapping_input\<close> and \<^verbatim>\<open>read_nav_input\<close>
  compute by the same three statements:
  \<^verbatim>\<open>int range = c->axis_max[ev.code] - c->axis_min[ev.code];\<close>
  \<^verbatim>\<open>int thresh = range > 0 ? range * 2 / 5 : 1;\<close>
  \<^verbatim>\<open>int delta = ev.value - c->axis_initial[ev.code];\<close>
\<close>

definition axis_range :: "controller \<Rightarrow> nat \<Rightarrow> int" where
  "axis_range c code = wrap32 (axis_max c ! code - axis_min c ! code)"

definition axis_thresh :: "controller \<Rightarrow> nat \<Rightarrow> int" where
  "axis_thresh c code =
     (let range = axis_range c code in
      if range > 0 then wrap32 (range * 2) sdiv 5 else 1)"

definition axis_delta :: "controller \<Rightarrow> nat \<Rightarrow> int \<Rightarrow> int" where
  "axis_delta c code v = wrap32 (v - axis_initial c ! code)"

text \<open>
  \<^verbatim>\<open>poll_mapping_input\<close> (gamepad_map.c 1115-1159), as a recursion over the events pending
  on the selected controller, oldest first. The result is the return value, the entry,
  and the events still pending: the loop stops at the first event that is captured.
  The arrays \<^verbatim>\<open>abs_map\<close>, \<^verbatim>\<open>axis_min\<close>, \<^verbatim>\<open>axis_max\<close> and \<^verbatim>\<open>axis_initial\<close> have the same
  declared size \<^verbatim>\<open>ABS_MAX\<close>.
\<close>

fun poll_mapping_input ::
  "controller \<Rightarrow> input_event list \<Rightarrow> mapping_entry \<Rightarrow>
   error + (int \<times> mapping_entry \<times> input_event list)"
where
  "poll_mapping_input c [] entry = Inr (0, entry, [])"
| "poll_mapping_input c (ev # evs) entry =
     (let code = unat (ev_code ev) in
      if unat (ev_type ev) = EV_KEY \<and> ev_value ev = 1 then
        (case arr_read (btn_map c) KEY_MAX code of
           Inl err \<Rightarrow> Inl err
         | Inr idx \<Rightarrow>
             if idx \<ge> 0
             then Inr (1, entry\<lparr>mapped_type := MAP_BUTTON, mapped_index := idx\<rparr>, evs)
             else poll_mapping_input c evs entry)
      else if unat (ev_type ev) = EV_ABS then
        (if code \<ge> ABS_HAT0X \<and> code \<le> ABS_HAT3Y \<and> ev_value ev \<noteq> 0 then
           let hat = int ((code - ABS_HAT0X) div 2);
               mask = (if (code - ABS_HAT0X) mod 2 = 0
                       then (if ev_value ev < 0 then 8 else 2)
                       else (if ev_value ev < 0 then 1 else 4))
           in Inr (1, entry\<lparr>mapped_type := MAP_HAT, mapped_index := hat, hat_mask := mask\<rparr>, evs)
         else
           (case arr_read (abs_map c) ABS_MAX code of
              Inl err \<Rightarrow> Inl err
            | Inr aidx \<Rightarrow>
                if aidx \<ge> 0 then
                  let thresh = axis_thresh c code;
                      delta = axis_delta c code (ev_value ev)
                  in if delta > thresh \<or> delta < wrap32 (- thresh)
                     then Inr (1, entry\<lparr>mapped_type := MAP_AXIS, mapped_index := aidx\<rparr>, evs)
                     else poll_mapping_input c evs entry
                else poll_mapping_input c evs entry))
      else poll_mapping_input c evs entry)"

subsection \<open>Navigation input\<close>

text \<open>
  The five outputs of \<^verbatim>\<open>read_nav_input\<close> and \<^verbatim>\<open>read_thec64_nav\<close>, which the callers pass
  by pointer.
\<close>

record nav =
  dy :: int
  dx :: int
  btn_a :: int
  btn_b :: int
  btn_start :: int

definition BTN_TRIGGER :: nat where "BTN_TRIGGER = 0x120"
definition BTN_TOP2 :: nat where "BTN_TOP2 = 0x124"
definition BTN_PINKIE :: nat where "BTN_PINKIE = 0x125"
definition BTN_BASE2 :: nat where "BTN_BASE2 = 0x127"

text \<open>
  One pass of the \<^verbatim>\<open>while\<close> loop of \<^verbatim>\<open>read_thec64_nav\<close> (gamepad_map.c 722-744): the
  outputs and \<^verbatim>\<open>got\<close> after the event.
\<close>

definition thec64_step :: "input_event \<Rightarrow> nav \<times> int \<Rightarrow> nav \<times> int" where
  "thec64_step ev st =
     (let (n, got) = st; code = unat (ev_code ev) in
      if unat (ev_type ev) = EV_KEY \<and> ev_value ev = 1 then
        (if code = BTN_TRIGGER \<or> code = BTN_TOP2 then (n\<lparr>btn_a := 1\<rparr>, 1)
         else if code = BTN_PINKIE then (n\<lparr>btn_b := 1\<rparr>, 1)
         else if code = BTN_BASE2 then (n\<lparr>btn_start := 1\<rparr>, 1)
         else (n, got))
      else if unat (ev_type ev) = EV_ABS then
        let delta = wrap32 (ev_value ev - 127);
            thresh = 50;
            (n1, got1) =
              (if code = ABS_Y then
                 (if delta < - thresh then (n\<lparr>dy := - 1\<rparr>, 1)
                  else if delta > thresh then (n\<lparr>dy := 1\<rparr>, 1)
                  else (n, got))
               else (n, got))
        in
          if code = ABS_X then
            (if delta < - thresh then (n1\<lparr>dx := - 1\<rparr>, 1)
             else if delta > thresh then (n1\<lparr>dx := 1\<rparr>, 1)
             else (n1, got1))
          else (n1, got1)
      else (n, got))"

text \<open>
  \<^verbatim>\<open>read_thec64_nav\<close>: \<open>evs\<close> are the events pending on the auxiliary joystick. With
  \<^verbatim>\<open>thec64_nav_idx < 0\<close> it returns 0 and reads nothing.
\<close>

definition read_thec64_nav :: "app \<Rightarrow> input_event list \<Rightarrow> nav \<Rightarrow> nav \<times> int" where
  "read_thec64_nav a evs n =
     (if thec64_nav_idx a < 0 then (n, 0) else fold thec64_step evs (n, 0))"

text \<open>
  One pass of the \<^verbatim>\<open>while\<close> loop of \<^verbatim>\<open>read_nav_input\<close> (gamepad_map.c 1061-1103). The
  C operator \<^verbatim>\<open>&&\<close> reads its second operand only when the first is true, which is where
  the array reads can fail.
\<close>

definition nav_axis :: "controller \<Rightarrow> mapping_entry \<Rightarrow> input_event \<Rightarrow> int \<Rightarrow> error + int" where
  "nav_axis c m ev d =
     (let code = unat (ev_code ev) in
      case (if mapped_type m = MAP_AXIS then arr_read (abs_map c) ABS_MAX code else Inr (- 1)) of
        Inl err \<Rightarrow> Inl err
      | Inr aidx \<Rightarrow>
          let d1 =
            (if mapped_type m = MAP_AXIS \<and> aidx = mapped_index m then
               let thresh = axis_thresh c code;
                   delta = axis_delta c code (ev_value ev)
               in if delta < wrap32 (- thresh) then - 1 else if delta > thresh then 1 else d
             else d)
          in
            case (if mapped_type m = MAP_HAT then arr_read (hat_map c) ABS_MAX code else Inr (- 1)) of
              Inl err \<Rightarrow> Inl err
            | Inr hidx \<Rightarrow>
                Inr (if mapped_type m = MAP_HAT \<and> hidx = mapped_index m then
                       (if ev_value ev < 0 then - 1 else if ev_value ev > 0 then 1 else d1)
                     else d1))"

definition is_button :: "mapping_entry \<Rightarrow> int \<Rightarrow> bool" where
  "is_button m idx \<longleftrightarrow> mapped_type m = MAP_BUTTON \<and> idx = mapped_index m"

definition nav_step :: "controller \<Rightarrow> mapping_entry list \<Rightarrow> input_event \<Rightarrow> nav \<Rightarrow> error + nav" where
  "nav_step c ms ev n =
     (let code = unat (ev_code ev) in
      if unat (ev_type ev) = EV_KEY \<and> ev_value ev = 1 then
        (case arr_read (btn_map c) KEY_MAX code of
           Inl err \<Rightarrow> Inl err
         | Inr idx \<Rightarrow>
             if idx < 0 then Inr n
             else
               let n1 = (if is_button (ms ! 0) idx then n\<lparr>btn_a := 1\<rparr> else n);
                   n2 = (if is_button (ms ! 4) idx then n1\<lparr>btn_a := 1\<rparr> else n1);
                   n3 = (if is_button (ms ! 5) idx then n2\<lparr>btn_b := 1\<rparr> else n2);
                   n4 = (if is_button (ms ! 7) idx then n3\<lparr>btn_start := 1\<rparr> else n3)
               in Inr n4)
      else if unat (ev_type ev) = EV_ABS then
        (case nav_axis c (ms ! 9) ev (dy n) of
           Inl err \<Rightarrow> Inl err
         | Inr y \<Rightarrow>
             (case nav_axis c (ms ! 8) ev (dx n) of
                Inl err \<Rightarrow> Inl err
              | Inr x \<Rightarrow> Inr (n\<lparr>dy := y, dx := x\<rparr>)))
      else Inr n)"

fun nav_loop :: "controller \<Rightarrow> mapping_entry list \<Rightarrow> input_event list \<Rightarrow> nav \<Rightarrow> error + nav" where
  "nav_loop c ms [] n = Inr n"
| "nav_loop c ms (ev # evs) n =
     (case nav_step c ms ev n of Inl err \<Rightarrow> Inl err | Inr n1 \<Rightarrow> nav_loop c ms evs n1)"

text \<open>
  \<^verbatim>\<open>read_nav_input\<close>: \<open>evs\<close> are the events pending on the selected controller, \<open>tevs\<close>
  those pending on the auxiliary joystick. The result is the outputs and the return
  value. \<^verbatim>\<open>controllers[sel_ctrl]\<close> is read, so \<^verbatim>\<open>sel_ctrl\<close> must be the index of a slot.
\<close>

definition nav_nonzero :: "nav \<Rightarrow> int" where
  "nav_nonzero n =
     (if dy n \<noteq> 0 \<or> dx n \<noteq> 0 \<or> btn_a n \<noteq> 0 \<or> btn_b n \<noteq> 0 \<or> btn_start n \<noteq> 0 then 1 else 0)"

definition read_nav_input ::
  "app \<Rightarrow> input_event list \<Rightarrow> input_event list \<Rightarrow> error + (nav \<times> int)"
where
  "read_nav_input a evs tevs =
     (if sel_ctrl a < 0 \<or> sel_ctrl a \<ge> MAX_CONTROLLERS then Inl OutOfBounds
      else
        let c = controllers a ! nat (sel_ctrl a);
            n0 = \<lparr>dy = 0, dx = 0, btn_a = 0, btn_b = 0, btn_start = 0\<rparr>
        in
          case nav_loop c (mappings a) evs n0 of
            Inl err \<Rightarrow> Inl err
          | Inr n1 \<Rightarrow>
              let (n2, got) = read_thec64_nav a tevs n1 in
              Inr (n2, nav_nonzero n2))"

text \<open>
  \<^verbatim>\<open>read_keyboard\<close> (gamepad_map.c 808-818): \<open>qs\<close> holds the events pending on each
  keyboard, in the order of \<^verbatim>\<open>kbd_fds\<close>. The code of the first key press, else 0.
\<close>

fun first_key_press :: "input_event list \<Rightarrow> int option" where
  "first_key_press [] = None"
| "first_key_press (ev # evs) =
     (if unat (ev_type ev) = EV_KEY \<and> ev_value ev = 1 then Some (int (unat (ev_code ev)))
      else first_key_press evs)"

fun read_keyboard :: "input_event list list \<Rightarrow> int" where
  "read_keyboard [] = 0"
| "read_keyboard (q # qs) =
     (case first_key_press q of Some k \<Rightarrow> k | None \<Rightarrow> read_keyboard qs)"

section \<open>The serializer: \<^verbatim>\<open>build_mapping_string\<close>\<close>

text \<open>
  The conversion \<^verbatim>\<open>%d\<close> of \<^verbatim>\<open>printf\<close>: decimal digits, most significant first, with
  a minus sign for a negative number.
\<close>

function dec_digits :: "nat \<Rightarrow> string" where
  "dec_digits n =
     (if n < 10 then [char_of (48 + n)] else dec_digits (n div 10) @ [char_of (48 + n mod 10)])"
  by pat_completeness auto
termination
  by (relation "measure (\<lambda>n. n)") auto

declare dec_digits.simps [simp del]

definition print_int :: "int \<Rightarrow> string" where
  "print_int i = (if i < 0 then CHR ''-'' # dec_digits (nat (- i)) else dec_digits (nat i))"

text \<open>
  \<^verbatim>\<open>pos += snprintf(out + pos, sz - pos, ...)\<close> with the text \<open>s\<close>: the buffer's string
  and \<^verbatim>\<open>pos\<close> afterwards. \<^verbatim>\<open>snprintf\<close> returns the length of the whole text, also when
  it has cut it. \<^verbatim>\<open>sz - pos\<close> is computed in \<^verbatim>\<open>size_t\<close>: with \<^verbatim>\<open>pos > sz\<close> it wraps
  around to a huge size and the call writes outside the buffer, which is the error here;
  with \<^verbatim>\<open>pos = sz\<close> the size is 0 and nothing is written. While \<^verbatim>\<open>pos < sz\<close> nothing has
  been cut yet and the string in the buffer is \<open>pos\<close> characters long.
\<close>

definition buf_printf :: "nat \<Rightarrow> string \<Rightarrow> string \<times> int \<Rightarrow> error + string \<times> int" where
  "buf_printf sz s st =
     (let (buf, pos) = st in
      if pos > int sz then Inl OutOfBounds
      else if pos = int sz then Inr (buf, pos + int (length s))
      else Inr (take (nat pos) buf @ take (sz - nat pos - 1) s, pos + int (length s)))"

fun buf_print_all :: "nat \<Rightarrow> string list \<Rightarrow> string \<times> int \<Rightarrow> error + string \<times> int" where
  "buf_print_all sz [] st = Inr st"
| "buf_print_all sz (s # ss) st =
     (case buf_printf sz s st of Inl err \<Rightarrow> Inl err | Inr st1 \<Rightarrow> buf_print_all sz ss st1)"

text \<open>
  The texts one pass of the loop over the ten slots prints, one per \<^verbatim>\<open>snprintf\<close> call:
  the name and a colon, the code (no call for an unbound slot), a comma.
\<close>

definition entry_pieces :: "mapping_entry \<Rightarrow> string list" where
  "entry_pieces m =
     [gcdb_name m @ '':''] @
     (case mapped_type m of
        MAP_BUTTON \<Rightarrow> [''b'' @ print_int (mapped_index m)]
      | MAP_AXIS \<Rightarrow> [''a'' @ print_int (mapped_index m)]
      | MAP_HAT \<Rightarrow> [''h'' @ print_int (mapped_index m) @ ''.'' @ print_int (hat_mask m)]
      | MAP_NONE \<Rightarrow> []) @
     ['','']"

text \<open>
  \<^verbatim>\<open>build_mapping_string(app, out, sz)\<close> (gamepad_map.c 852-880): the string in \<^verbatim>\<open>out\<close>
  afterwards; the argument \<open>out\<close> is the string in the buffer before the call.
\<close>

definition build_mapping_string :: "app \<Rightarrow> string \<Rightarrow> nat \<Rightarrow> error + string" where
  "build_mapping_string a out sz =
     (if sel_ctrl a < 0 \<or> sel_ctrl a \<ge> MAX_CONTROLLERS then Inl OutOfBounds
      else
        let c = controllers a ! nat (sel_ctrl a);
            pieces = [guid c @ '','' @ name c @ '',''] @
                     concat (map entry_pieces (take (nat NUM_MAPPINGS) (mappings a))) @
                     [''platform:Linux,'']
        in case buf_print_all sz pieces (out, 0) of
             Inl err \<Rightarrow> Inl err
           | Inr (buf, pos) \<Rightarrow> Inr buf)"

subsection \<open>The line, in the words of the specification\<close>

definition channel_code :: "mapping_entry \<Rightarrow> string" where
  "channel_code m =
     (case mapped_type m of
        MAP_BUTTON \<Rightarrow> ''b'' @ print_int (mapped_index m)
      | MAP_AXIS \<Rightarrow> ''a'' @ print_int (mapped_index m)
      | MAP_HAT \<Rightarrow> ''h'' @ print_int (mapped_index m) @ ''.'' @ print_int (hat_mask m)
      | MAP_NONE \<Rightarrow> [])"

definition mapping_line :: "string \<Rightarrow> string \<Rightarrow> mapping_entry list \<Rightarrow> string" where
  "mapping_line g nm ms =
     g @ '','' @ nm @ '','' @
     concat (map (\<lambda>m. gcdb_name m @ '':'' @ channel_code m @ '','') ms) @
     ''platform:Linux,''"

section \<open>The states of the wizard\<close>

text \<open>
  \<^verbatim>\<open>update_mapping\<close> (gamepad_map.c 1226-1249): \<open>evs\<close> are the events pending on the
  selected controller. \<^verbatim>\<open>drain_events\<close> and \<^verbatim>\<open>usleep\<close> change nothing in the state
  modelled. \<^verbatim>\<open>mappings[cur_map]\<close> and \<^verbatim>\<open>controllers[sel_ctrl]\<close> must be slots of their
  arrays.
\<close>

definition update_mapping :: "input_event list \<Rightarrow> app \<Rightarrow> error + app" where
  "update_mapping evs a =
     (if cur_map a < 0 \<or> cur_map a \<ge> NUM_MAPPINGS \<or>
         sel_ctrl a < 0 \<or> sel_ctrl a \<ge> MAX_CONTROLLERS
      then Inl OutOfBounds
      else
        case poll_mapping_input (controllers a ! nat (sel_ctrl a)) evs
               (mappings a ! nat (cur_map a)) of
          Inl err \<Rightarrow> Inl err
        | Inr (got, m, rest) \<Rightarrow>
            let a1 = a\<lparr>mappings := (mappings a)[nat (cur_map a) := m]\<rparr> in
            if got \<noteq> 0 then
              if redo_single a1 \<ge> 0
              then Inr (a1\<lparr>redo_single := - 1, state := STATE_REVIEW\<rparr>)
              else
                let a2 = a1\<lparr>cur_map := cur_map a1 + 1\<rparr> in
                if cur_map a2 \<ge> NUM_MAPPINGS then
                  (case build_mapping_string a2 (mapping_str a2) 1024 of
                     Inl err \<Rightarrow> Inl err
                   | Inr s \<Rightarrow> Inr (a2\<lparr>state := STATE_REVIEW, review_sel := 0, mapping_str := s\<rparr>))
                else Inr a2
            else Inr a1)"

text \<open>
  \<^verbatim>\<open>review_redo_selected\<close> (gamepad_map.c 1314-1323). \<^verbatim>\<open>drain_nav_events\<close> changes nothing
  in the state modelled.
\<close>

definition review_redo_selected :: "app \<Rightarrow> app" where
  "review_redo_selected a =
     (if review_sel a \<ge> 0 \<and> review_sel a < NUM_MAPPINGS then
        let a1 = a\<lparr>redo_single := review_sel a, cur_map := review_sel a\<rparr>;
            k = nat (cur_map a1)
        in a1\<lparr>mappings := (mappings a1)[k := (mappings a1 ! k)\<lparr>mapped_type := MAP_NONE\<rparr>],
               state := STATE_MAPPING\<rparr>
      else a)"

definition review_restart :: "app \<Rightarrow> app" where
  "review_restart a =
     a\<lparr>mappings := init_mappings, cur_map := 0, redo_single := - 1, state := STATE_MAPPING\<rparr>"

section \<open>The directory browser and the states REVIEW and BROWSE\<close>

text \<open>
  What the file system answers:
  \<^item> \<open>fs_readdir p\<close>: the names \<^verbatim>\<open>readdir\<close> returns for \<^verbatim>\<open>opendir(p)\<close>, in its order;
    \<open>None\<close> when \<^verbatim>\<open>opendir\<close> fails;
  \<^item> \<open>fs_is_dir p\<close>: \<^verbatim>\<open>stat(p, &st)\<close> succeeds and \<^verbatim>\<open>S_ISDIR(st.st_mode)\<close>;
  \<^item> \<open>fs_can_write p\<close>: \<^verbatim>\<open>fopen(p, "w")\<close> returns a stream.
  The contents of the files written are kept in a map from paths to texts.
\<close>

record fs_env =
  fs_readdir :: "string \<Rightarrow> string list option"
  fs_is_dir :: "string \<Rightarrow> bool"
  fs_can_write :: "string \<Rightarrow> bool"

type_synonym files = "string \<rightharpoonup> string"

definition MAX_DIR_ENTRIES :: int where "MAX_DIR_ENTRIES = 256"

text \<open>
  \<^verbatim>\<open>dir_entry_cmp\<close> with \<^verbatim>\<open>strcasecmp\<close> in the C locale. \<^verbatim>\<open>qsort\<close> leaves the order of
  entries that compare equal unspecified; the model sorts by insertion.
\<close>

definition tolower :: "char \<Rightarrow> nat" where
  "tolower ch = (let n = of_char ch in if 65 \<le> n \<and> n \<le> 90 then n + 32 else n)"

fun strcasecmp :: "string \<Rightarrow> string \<Rightarrow> int" where
  "strcasecmp [] [] = 0"
| "strcasecmp [] (y # ys) = - int (tolower y)"
| "strcasecmp (x # xs) [] = int (tolower x)"
| "strcasecmp (x # xs) (y # ys) =
     (if tolower x \<noteq> tolower y then int (tolower x) - int (tolower y) else strcasecmp xs ys)"

definition dir_entry_cmp :: "dir_entry \<Rightarrow> dir_entry \<Rightarrow> int" where
  "dir_entry_cmp da db =
     (if is_dir da \<noteq> is_dir db then is_dir db - is_dir da
      else strcasecmp (entry_name da) (entry_name db))"

fun insert_entry :: "dir_entry \<Rightarrow> dir_entry list \<Rightarrow> dir_entry list" where
  "insert_entry x [] = [x]"
| "insert_entry x (y # ys) =
     (if dir_entry_cmp x y \<le> 0 then x # y # ys else y # insert_entry x ys)"

definition qsort_entries :: "dir_entry list \<Rightarrow> dir_entry list" where
  "qsort_entries es = foldr insert_entry es []"

text \<open>
  The \<^verbatim>\<open>readdir\<close> loop of \<^verbatim>\<open>browser_load\<close> (gamepad_map.c 1020-1031) over the names still
  to be read.
\<close>

fun load_loop :: "fs_env \<Rightarrow> string \<Rightarrow> string list \<Rightarrow> dir_browser \<Rightarrow> dir_browser" where
  "load_loop fs p [] b = b"
| "load_loop fs p (nm # nms) b =
     (if \<not> count b < MAX_DIR_ENTRIES then b
      else if (case nm of [] \<Rightarrow> False | ch # _ \<Rightarrow> ch = CHR ''.'') then load_loop fs p nms b
      else
        let fullpath = snprintf_buf MAX_PATH_LEN (p @ ''/'' @ nm) in
        if \<not> fs_is_dir fs fullpath then load_loop fs p nms b
        else load_loop fs p nms
               (b\<lparr>entries := (entries b)[nat (count b) :=
                      \<lparr>entry_name = snprintf_buf MAX_NAME_LEN nm, is_dir = 1\<rparr>],
                   count := count b + 1\<rparr>))"

text \<open>
  \<^verbatim>\<open>browser_load(b, path)\<close> (gamepad_map.c 998-1047). \<^verbatim>\<open>strncpy\<close> copies at most 511
  characters; the last byte of \<^verbatim>\<open>b->path\<close> is never written and stays 0.
\<close>

definition browser_load :: "fs_env \<Rightarrow> string \<Rightarrow> dir_browser \<Rightarrow> dir_browser" where
  "browser_load fs p b =
     (let b1 = b\<lparr>browser_path := take (MAX_PATH_LEN - 1) p, count := 0, selected := 0,
                 scroll := 0\<rparr>;
          b2 = (if browser_path b1 \<noteq> ''/''
                then b1\<lparr>entries := (entries b1)[0 := \<lparr>entry_name = ''..'', is_dir = 1\<rparr>],
                        count := 1\<rparr>
                else b1)
      in
        case fs_readdir fs p of
          None \<Rightarrow> b2
        | Some names \<Rightarrow>
            let b3 = load_loop fs p names b2;
                start = (if count b3 > 0 \<and> entry_name (entries b3 ! 0) = ''..'' then 1 else 0);
                b4 = (if count b3 - start > 1
                      then b3\<lparr>entries :=
                               take (nat start) (entries b3) @
                               qsort_entries
                                 (take (nat (count b3 - start)) (drop (nat start) (entries b3))) @
                               drop (nat (count b3)) (entries b3)\<rparr>
                      else b3)
            in
              if count b4 < MAX_DIR_ENTRIES
              then b4\<lparr>entries := (entries b4)[nat (count b4) :=
                          \<lparr>entry_name = ''>> Export here <<'', is_dir = 0\<rparr>],
                       count := count b4 + 1\<rparr>
              else b4)"

text \<open>
  "Go up" (gamepad_map.c 1635-1640 and 1674-1679): \<^verbatim>\<open>strrchr(path, '/')\<close> finds the last
  slash; the path is cut there unless the slash is its first character or there is none,
  when it becomes \<^verbatim>\<open>/\<close>.
\<close>

definition last_slash :: "string \<Rightarrow> nat option" where
  "last_slash p =
     (let k = length (takeWhile (\<lambda>ch. ch \<noteq> CHR ''/'') (rev p)) in
      if k = length p then None else Some (length p - 1 - k))"

definition go_up :: "string \<Rightarrow> string" where
  "go_up p = (case last_slash p of None \<Rightarrow> ''/'' | Some i \<Rightarrow> if i \<noteq> 0 then take i p else ''/'')"

definition browse_up :: "fs_env \<Rightarrow> dir_browser \<Rightarrow> dir_browser" where
  "browse_up fs b = browser_load fs (go_up (browser_path b)) (b\<lparr>browser_path := go_up (browser_path b)\<rparr>)"

text \<open>\<^verbatim>\<open>review_save\<close> (gamepad_map.c 1336-1341).\<close>

definition review_save :: "fs_env \<Rightarrow> app \<Rightarrow> app" where
  "review_save fs a = a\<lparr>browser := browser_load fs ''/mnt'' (browser a), state := STATE_BROWSE\<rparr>"

text \<open>Key codes of the kernel header.\<close>

definition KEY_ESC :: int where "KEY_ESC = 1"
definition KEY_1 :: int where "KEY_1 = 2"
definition KEY_2 :: int where "KEY_2 = 3"
definition KEY_3 :: int where "KEY_3 = 4"
definition KEY_4 :: int where "KEY_4 = 5"
definition KEY_BACKSPACE :: int where "KEY_BACKSPACE = 14"
definition KEY_Q :: int where "KEY_Q = 16"
definition KEY_ENTER :: int where "KEY_ENTER = 28"
definition KEY_SPACE :: int where "KEY_SPACE = 57"
definition KEY_UP :: int where "KEY_UP = 103"
definition KEY_LEFT :: int where "KEY_LEFT = 105"
definition KEY_RIGHT :: int where "KEY_RIGHT = 106"
definition KEY_DOWN :: int where "KEY_DOWN = 108"

definition REVIEW_TOTAL_ITEMS :: int where "REVIEW_TOTAL_ITEMS = NUM_MAPPINGS + 4"

text \<open>"Map another" (gamepad_map.c 1356-1363 and 1398-1405).\<close>

definition review_another :: "app \<Rightarrow> app" where
  "review_another a =
     a\<lparr>mappings := init_mappings, sel_ctrl := - 1, thec64_nav_idx := - 1,
       state := STATE_DETECT, save_path := []\<rparr>"

text \<open>
  \<^verbatim>\<open>update_review\<close> (gamepad_map.c 1343-1423): \<open>evs\<close>, \<open>tevs\<close> and \<open>kbd\<close> are the events
  pending on the selected controller, on the auxiliary joystick and on the keyboards.
  Every \<^verbatim>\<open>return\<close> of the C function is a branch that ends here.
\<close>

definition review_confirm :: "fs_env \<Rightarrow> app \<Rightarrow> app option" where
  "review_confirm fs a =
     (if review_sel a \<ge> 0 \<and> review_sel a < NUM_MAPPINGS then Some (review_redo_selected a)
      else if review_sel a = NUM_MAPPINGS then Some (review_save fs a)
      else if review_sel a = NUM_MAPPINGS + 1 then Some (review_restart a)
      else if review_sel a = NUM_MAPPINGS + 2 then Some (review_another a)
      else if review_sel a = NUM_MAPPINGS + 3 then Some (a\<lparr>state := STATE_EXIT\<rparr>)
      else None)"

definition update_review ::
  "fs_env \<Rightarrow> input_event list \<Rightarrow> input_event list \<Rightarrow> input_event list list \<Rightarrow> app \<Rightarrow>
   error + app"
where
  "update_review fs evs tevs kbd a =
     (case read_nav_input a evs tevs of
        Inl err \<Rightarrow> Inl err
      | Inr (n0, got_ctrl) \<Rightarrow>
          let key = read_keyboard kbd;
              n1 = (if key = KEY_UP then n0\<lparr>dy := - 1\<rparr> else n0);
              n2 = (if key = KEY_DOWN then n1\<lparr>dy := 1\<rparr> else n1);
              n = (if key = KEY_RIGHT then n2\<lparr>dx := 1\<rparr> else n2)
          in
            if key = KEY_1 then Inr (review_redo_selected a)
            else if key = KEY_2 then Inr (review_save fs a)
            else if key = KEY_3 then Inr (review_restart a)
            else if key = KEY_4 then Inr (review_another a)
            else if key = KEY_Q \<or> key = KEY_ESC then Inr (a\<lparr>state := STATE_EXIT\<rparr>)
            else if got_ctrl = 0 \<and> key = 0 then Inr a
            else
              let a1 = (if dy n \<noteq> 0 then
                          let s = review_sel a + dy n;
                              s1 = (if s < 0 then 0 else s);
                              s2 = (if s1 \<ge> REVIEW_TOTAL_ITEMS then REVIEW_TOTAL_ITEMS - 1 else s1)
                          in a\<lparr>review_sel := s2\<rparr>
                        else a)
              in
                if dx n > 0 \<and> review_sel a1 \<ge> 0 \<and> review_sel a1 < NUM_MAPPINGS
                then Inr (review_redo_selected a1)
                else
                  case (if btn_a n \<noteq> 0 \<or> key = KEY_ENTER \<or> key = KEY_SPACE
                        then review_confirm fs a1 else None) of
                    Some a2 \<Rightarrow> Inr a2
                  | None \<Rightarrow>
                      if btn_b n \<noteq> 0 \<and> review_sel a1 \<ge> 0 \<and> review_sel a1 < NUM_MAPPINGS
                      then Inr (review_redo_selected a1)
                      else if btn_start n \<noteq> 0 then Inr (review_save fs a1)
                      else Inr a1)"

text \<open>
  The selection movement of \<^verbatim>\<open>update_browse\<close> (gamepad_map.c 1622-1630).
\<close>

definition move_selected :: "int \<Rightarrow> dir_browser \<Rightarrow> dir_browser" where
  "move_selected d b =
     (let s = selected b + d;
          s1 = (if s < 0 then 0 else s);
          s2 = (if s1 \<ge> count b then count b - 1 else s1);
          visible = 18;
          sc1 = (if s2 < scroll b then s2 else scroll b);
          sc2 = (if s2 \<ge> sc1 + visible then s2 - visible + 1 else sc1)
      in b\<lparr>selected := s2, scroll := sc2\<rparr>)"

text \<open>
  The name of the file the export writes (gamepad_map.c 1655-1660), in a buffer of
  \<^verbatim>\<open>MAX_PATH_LEN\<close> bytes: \<^verbatim>\<open>"/%.32s.txt"\<close> in the root directory, else
  \<^verbatim>\<open>"%.470s/%.32s.txt"\<close>.
\<close>

definition export_path :: "string \<Rightarrow> string \<Rightarrow> string" where
  "export_path dir g =
     (if dir = ''/'' then snprintf_buf MAX_PATH_LEN (''/'' @ take 32 g @ ''.txt'')
      else snprintf_buf MAX_PATH_LEN (take 470 dir @ ''/'' @ take 32 g @ ''.txt''))"

text \<open>
  The branch of \<^verbatim>\<open>update_browse\<close> taken for \<^verbatim>\<open>btn_a && b->count > 0\<close>
  (gamepad_map.c 1631-1671): go up, enter a directory, or export.
\<close>

definition browse_select :: "fs_env \<Rightarrow> app \<times> files \<Rightarrow> error + app \<times> files" where
  "browse_select fs st =
     (let (a, fl) = st; b = browser a in
      if selected b < 0 \<or> selected b \<ge> MAX_DIR_ENTRIES then Inl OutOfBounds
      else
        let e = entries b ! nat (selected b) in
        if entry_name e = ''..'' then Inr (a\<lparr>browser := browse_up fs b\<rparr>, fl)
        else if is_dir e \<noteq> 0 then
          let newpath =
                (if browser_path b = ''/''
                 then snprintf_buf MAX_PATH_LEN (''/'' @ take 250 (entry_name e))
                 else snprintf_buf MAX_PATH_LEN
                        (take 250 (browser_path b) @ ''/'' @ take 250 (entry_name e)))
          in Inr (a\<lparr>browser := browser_load fs newpath b\<rparr>, fl)
        else
          if sel_ctrl a < 0 \<or> sel_ctrl a \<ge> MAX_CONTROLLERS then Inl OutOfBounds
          else
            let c = controllers a ! nat (sel_ctrl a) in
            case build_mapping_string a (mapping_str a) 1024 of
              Inl err \<Rightarrow> Inl err
            | Inr s \<Rightarrow>
                let a1 = a\<lparr>mapping_str := s\<rparr>;
                    filepath = export_path (browser_path b) (guid c)
                in
                  if fs_can_write fs filepath
                  then Inr (a1\<lparr>save_path := snprintf_buf MAX_PATH_LEN filepath,
                                state := STATE_REVIEW\<rparr>,
                            fl(filepath \<mapsto> s @ [CHR 0x0A]))
                  else Inr (a1, fl))"

text \<open>
  \<^verbatim>\<open>update_browse\<close> (gamepad_map.c 1603-1687); the arguments are those of
  \<open>update_review\<close>, and the files written so far.
\<close>

definition update_browse ::
  "fs_env \<Rightarrow> input_event list \<Rightarrow> input_event list \<Rightarrow> input_event list list \<Rightarrow>
   app \<times> files \<Rightarrow> error + app \<times> files"
where
  "update_browse fs evs tevs kbd st =
     (let (a, fl) = st in
      case read_nav_input a evs tevs of
        Inl err \<Rightarrow> Inl err
      | Inr (n0, got_ctrl) \<Rightarrow>
          let key = read_keyboard kbd;
              n1 = (if key = KEY_UP then n0\<lparr>dy := - 1\<rparr> else n0);
              n2 = (if key = KEY_DOWN then n1\<lparr>dy := 1\<rparr> else n1);
              n3 = (if key = KEY_ENTER then n2\<lparr>btn_a := 1\<rparr> else n2);
              n4 = (if key = KEY_LEFT \<or> key = KEY_BACKSPACE then n3\<lparr>btn_b := 1\<rparr> else n3);
              n = (if key = KEY_Q \<or> key = KEY_ESC then n4\<lparr>btn_start := 1\<rparr> else n4)
          in
            if got_ctrl = 0 \<and> key = 0 then Inr (a, fl)
            else
              let a1 = (if dy n \<noteq> 0 then a\<lparr>browser := move_selected (dy n) (browser a)\<rparr> else a)
              in
                case (if btn_a n \<noteq> 0 \<and> count (browser a1) > 0
                      then browse_select fs (a1, fl) else Inr (a1, fl)) of
                  Inl err \<Rightarrow> Inl err
                | Inr (a2, fl2) \<Rightarrow>
                    let a3 = (if btn_b n \<noteq> 0 then a2\<lparr>browser := browse_up fs (browser a2)\<rparr>
                              else a2);
                        a4 = (if btn_start n \<noteq> 0 then a3\<lparr>state := STATE_REVIEW\<rparr> else a3)
                    in Inr (a4, fl2))"

section \<open>Notions of the claims\<close>

text \<open>
  The direction masks of a hat: Up = 1, Down = 4, Left = 8, Right = 2. A hat event is an
  absolute-axis event with a code in the hat sub-range and a value other than 0; the
  X codes of the sub-range are the even offsets, and give Left or Right by the sign of
  the value, the Y codes are the odd offsets, and give Up or Down.
\<close>

datatype direction = Up | Down | Left | Right

fun direction_mask :: "direction \<Rightarrow> int" where
  "direction_mask Up = 1"
| "direction_mask Down = 4"
| "direction_mask Left = 8"
| "direction_mask Right = 2"

definition hat_event :: "input_event \<Rightarrow> bool" where
  "hat_event ev \<longleftrightarrow>
     unat (ev_type ev) = EV_ABS \<and> ABS_HAT0X \<le> unat (ev_code ev) \<and>
     unat (ev_code ev) \<le> ABS_HAT3Y \<and> ev_value ev \<noteq> 0"

definition hat_direction :: "input_event \<Rightarrow> direction" where
  "hat_direction ev =
     (if even (unat (ev_code ev) - ABS_HAT0X)
      then (if ev_value ev < 0 then Left else Right)
      else (if ev_value ev < 0 then Up else Down))"

definition hat_capture :: "input_event \<Rightarrow> mapping_entry \<Rightarrow> mapping_entry" where
  "hat_capture ev entry =
     entry\<lparr>mapped_type := MAP_HAT,
           mapped_index := int ((unat (ev_code ev) - ABS_HAT0X) div 2),
           hat_mask := direction_mask (hat_direction ev)\<rparr>"

text \<open>
  The deflection rule of the specification: the threshold is 40% of the half-range
  \<open>(maximum - minimum) / 2\<close>, and 1 when the range is empty. \<open>|delta| > 2/5 * (range / 2)\<close>
  is \<open>5 * |delta| > range\<close>, which avoids fractions.
\<close>

definition spec_deflected :: "int \<Rightarrow> int \<Rightarrow> int \<Rightarrow> int \<Rightarrow> bool" where
  "spec_deflected mn mx initial sample \<longleftrightarrow>
     (if mx - mn = 0 then \<bar>sample - initial\<bar> > 1 else 5 * \<bar>sample - initial\<bar> > mx - mn)"

text \<open>The values of a C \<^verbatim>\<open>int\<close> on the targets (32 bits).\<close>

definition int32 :: "int \<Rightarrow> bool" where
  "int32 i \<longleftrightarrow> - (2 ^ 31) \<le> i \<and> i < 2 ^ 31"

section \<open>Concrete inputs\<close>

text \<open>
  A device on a machine with 32-bit \<^verbatim>\<open>long\<close> that reports \<^verbatim>\<open>EV_KEY\<close> and \<^verbatim>\<open>EV_ABS\<close>, the
  axes \<^verbatim>\<open>ABS_X\<close> and \<^verbatim>\<open>ABS_Y\<close> with range 0..255, and no key; and its directory entry.
\<close>

definition example_pad :: "(32 word list) evdev" where
  "example_pad =
     \<lparr>ev_bits = Some [0x0A], abs_bits = Some [0x03], key_bits = None,
      abs_info = (\<lambda>i. Some (0, 255)),
      dev_id = Some \<lparr>bustype = 0x0003, vendor = 0x1234, product = 0x5678, version = 0x0100\<rparr>,
      dev_name = Some ''Pad''\<rparr>"

definition example_node :: "(32 word list) dev_node" where
  "example_node = \<lparr>d_name = ''event0'', node_open = Some (3, example_pad)\<rparr>"

text \<open>
  A device on the same machine whose only axis is the one with code \<^verbatim>\<open>ABS_MAX\<close> (0x3f):
  bit 31 of the second word of the field.
\<close>

definition last_axis_pad :: "(32 word list) evdev" where
  "last_axis_pad =
     \<lparr>ev_bits = Some [0x08], abs_bits = Some [0, 0x80000000], key_bits = None,
      abs_info = (\<lambda>i. Some (0, 255)),
      dev_id = Some \<lparr>bustype = 0x0003, vendor = 0x1234, product = 0x5679, version = 0x0100\<rparr>,
      dev_name = Some ''Axis''\<rparr>"

text \<open>The hat 0 pushed up: \<^verbatim>\<open>ABS_HAT0Y\<close> with value -1. The X axis at 187.\<close>

definition hat_up_event :: input_event where
  "hat_up_event = \<lparr>ev_type = 0x03, ev_code = 0x11, ev_value = - 1\<rparr>"

definition axis_x_event :: input_event where
  "axis_x_event = \<lparr>ev_type = 0x03, ev_code = 0x00, ev_value = 187\<rparr>"

text \<open>
  A device with the two buttons \<^verbatim>\<open>BTN_TRIGGER\<close> and \<^verbatim>\<open>BTN_THUMB\<close> (codes 0x120 and 0x121),
  a session in REVIEW on it with channel \<open>i\<close> bound to button \<open>i\<close>, the presses of
  the two buttons and of the Enter key, and a file system without directories.
\<close>

definition button_pad :: "(32 word list) evdev" where
  "button_pad =
     \<lparr>ev_bits = Some [0x02], abs_bits = None, key_bits = Some (replicate 9 0 @ [0x03]),
      abs_info = (\<lambda>i. None),
      dev_id = Some \<lparr>bustype = 0x0003, vendor = 0x0079, product = 0x0011, version = 0x0110\<rparr>,
      dev_name = Some ''Buttons''\<rparr>"

definition button_node :: "(32 word list) dev_node" where
  "button_node = \<lparr>d_name = ''event1'', node_open = Some (4, button_pad)\<rparr>"

definition bind_button :: "mapping_entry \<times> int \<Rightarrow> mapping_entry" where
  "bind_button mi = (fst mi)\<lparr>mapped_type := MAP_BUTTON, mapped_index := snd mi\<rparr>"

definition review_app :: app where
  "review_app =
     initial_app
       \<lparr>state := STATE_REVIEW,
        controllers := (controllers initial_app)[0 := controller_of button_node],
        num_controllers := 1,
        sel_ctrl := 0,
        mappings := map bind_button (zip init_mappings [0, 1, 2, 3, 4, 5, 6, 7, 8, 9]),
        cur_map := 10\<rparr>"

definition press_trigger :: input_event where
  "press_trigger = \<lparr>ev_type = 0x01, ev_code = 0x120, ev_value = 1\<rparr>"

definition press_enter :: input_event where
  "press_enter = \<lparr>ev_type = 0x01, ev_code = 28, ev_value = 1\<rparr>"

definition press_thumb :: input_event where
  "press_thumb = \<lparr>ev_type = 0x01, ev_code = 0x121, ev_value = 1\<rparr>"

definition empty_fs :: fs_env where
  "empty_fs = \<lparr>fs_readdir = (\<lambda>p. None), fs_is_dir = (\<lambda>p. False), fs_can_write = (\<lambda>p. False)\<rparr>"

text \<open>
  The session in BROWSE, in a directory without subdirectories (the rows are \<^verbatim>\<open>..\<close> and
  the export action) with the cursor on the export action; a directory path of 471
  characters, in two components of 235 and 234 characters; and file systems on which every file can, or no file can, be opened for
  writing.
\<close>

definition export_rows :: "dir_entry list" where
  "export_rows =
     (replicate 256 \<lparr>entry_name = [], is_dir = 0\<rparr>)
       [0 := \<lparr>entry_name = ''..'', is_dir = 1\<rparr>,
        1 := \<lparr>entry_name = ''>> Export here <<'', is_dir = 0\<rparr>]"

definition browse_app :: "string \<Rightarrow> app" where
  "browse_app dir =
     review_app
       \<lparr>state := STATE_BROWSE,
        browser := \<lparr>browser_path = dir, entries = export_rows, count = 2, selected = 1,
                     scroll = 0\<rparr>\<rparr>"

definition long_dir :: string where
  "long_dir = CHR ''/'' # replicate 235 CHR ''d'' @ CHR ''/'' # replicate 234 CHR ''e''"

definition writable_fs :: fs_env where
  "writable_fs = \<lparr>fs_readdir = (\<lambda>p. None), fs_is_dir = (\<lambda>p. False), fs_can_write = (\<lambda>p. True)\<rparr>"

section \<open>Proofs\<close>

subsection \<open>\<^verbatim>\<open>build_guid\<close>\<close>

lemma char_is_char_of: "c = char_of (n :: nat) \<longleftrightarrow> of_char c = n mod 256"
  using char_of_eq_iff [of n c] by (auto simp: take_bit_eq_mod)

lemma hex_table: "hex = map hex_digit [0..<16]"
  by (simp add: hex_def hex_digit_def char_is_char_of upt_rec)

lemma hex_nth_digit:
  assumes "n < 16"
  shows "hex ! n = hex_digit n"
  using assms by (simp add: hex_table)

lemma unat_high_nibble: "unat (drop_bit 4 (g :: 8 word)) = unat g div 16"
  by (simp add: drop_bit_eq_div unat_div)

lemma unat_low_nibble: "unat ((g :: 8 word) AND 0x0F) = unat g mod 16"
proof -
  have "g AND 0x0F = take_bit 4 g"
    by (simp add: take_bit_eq_mask mask_eq_exp_minus_1)
  then show ?thesis
    by (simp add: take_bit_eq_mod unat_mod)
qed

lemma unat_byte_lt: "unat (g :: 8 word) < 256"
  using unsigned_less [of g, where ?'a = nat] by simp

lemma guid_loop_hex_of_byte: "guid_loop gs = concat (map (hex_of_byte \<circ> unat) gs)"
proof (induction gs)
  case Nil
  show ?case by simp
next
  case (Cons g gs)
  have hi: "unat g div 16 < 16"
    using unat_byte_lt [of g] by simp
  have lo: "unat g mod 16 < 16"
    by simp
  show ?case
    by (simp add: Cons.IH hex_of_byte_def unat_high_nibble unat_low_nibble
        hex_nth_digit [OF hi] hex_nth_digit [OF lo])
qed

lemma unat_low_byte: "unat (ucast ((w :: 16 word) AND 0xFF) :: 8 word) = unat w mod 256"
proof -
  have "w AND 0xFF = take_bit 8 w"
    by (simp add: take_bit_eq_mask mask_eq_exp_minus_1)
  then show ?thesis
    by (simp add: unsigned_ucast_eq take_bit_eq_mod unat_mod)
qed

lemma unat_high_byte:
  "unat (drop_bit 8 (w :: 16 word)) mod 256 = unat w div 256"
proof -
  have "unat w < 65536"
    using unsigned_less [of w, where ?'a = nat] by simp
  then have "unat w div 256 < 256"
    by simp
  then show ?thesis
    by (simp add: drop_bit_eq_div unat_div)
qed

lemma map_unat_guid_array:
  "map unat (guid_array i) =
     guid_layout (unat (bustype i)) (unat (vendor i)) (unat (product i)) (unat (version i))"
  by (simp add: guid_array_def guid_layout_def little_endian16_def unat_low_byte
      unat_high_byte)

lemma hex_digit_in_hex: "n < 16 \<Longrightarrow> hex_digit n \<in> set hex"
  using hex_nth_digit [of n] nth_mem [of n hex] by (simp add: hex_def)

lemma guid_loop_length: "length (guid_loop gs) = 2 * length gs"
  by (induction gs) simp_all

lemma guid_loop_chars: "set (guid_loop gs) \<subseteq> set hex"
proof (induction gs)
  case Nil
  show ?case by simp
next
  case (Cons g gs)
  have hi: "unat g div 16 < 16"
    using unat_byte_lt [of g] by simp
  have lo: "unat g mod 16 < 16"
    by simp
  have "hex ! (unat g div 16) \<in> set hex" "hex ! (unat g mod 16) \<in> set hex"
    using hex_digit_in_hex [OF hi] hex_digit_in_hex [OF lo]
    by (simp_all add: hex_nth_digit [OF hi] hex_nth_digit [OF lo])
  with Cons.IH show ?case
    by (simp add: unat_high_nibble unat_low_nibble)
qed

text \<open>
  C1. \<^verbatim>\<open>build_guid\<close> is a total function of the quadruple (bustype, vendor, product,
  version) alone: for every value of the four 16-bit fields its result is the rendering,
  in lowercase hexadecimal, of the 16 bytes little-endian bustype, 00 00, little-endian
  vendor, 00 00, little-endian product, 00 00, little-endian version, 00 00. The result
  has 32 characters, all of them among \<^verbatim>\<open>0123456789abcdef\<close>. Since the right-hand
  side mentions nothing but the four field values, equal quadruples give equal strings.
\<close>

theorem build_guid_layout:
  "build_guid i =
     guid_spec (unat (bustype i)) (unat (vendor i)) (unat (product i)) (unat (version i))
   \<and> length (build_guid i) = 32
   \<and> set (build_guid i) \<subseteq> set ''0123456789abcdef''"
proof -
  have "build_guid i = concat (map hex_of_byte (map unat (guid_array i)))"
    by (simp add: build_guid_def guid_loop_hex_of_byte)
  then have eq: "build_guid i =
     guid_spec (unat (bustype i)) (unat (vendor i)) (unat (product i)) (unat (version i))"
    by (simp only: map_unat_guid_array guid_spec_def)
  have len: "length (build_guid i) = 32"
    by (simp add: build_guid_def guid_loop_length guid_array_def)
  have chars: "set (build_guid i) \<subseteq> set ''0123456789abcdef''"
    using guid_loop_chars [of "guid_array i"] by (simp add: build_guid_def hex_def)
  from eq len chars show ?thesis by simp
qed

lemma build_guid_example:
  "build_guid \<lparr>bustype = 0x0003, vendor = 0x1234, product = 0x5678, version = 0x0100\<rparr> =
     ''03000000341200007856000000010000''"
  by (simp add: build_guid_def guid_array_def hex_def)



subsection \<open>\<^verbatim>\<open>is_gamepad\<close>\<close>

lemma TEST_BIT_bit: "TEST_BIT b a \<noteq> 0 \<longleftrightarrow> bit (a ! (b div LENGTH('w))) (b mod LENGTH('w))"
  for a :: "'w::len word list"
  by (simp add: TEST_BIT_def and_one_eq bit_iff_odd_drop_bit odd_iff_mod_2_eq_one)

lemma NBITS_index: "c < x \<Longrightarrow> c div LENGTH('w) < NBITS TYPE('w::len) x"
proof -
  assume "c < x"
  then have "c \<le> x - 1" by simp
  then have "c div LENGTH('w) \<le> (x - 1) div LENGTH('w)"
    by (rule div_le_mono)
  then show ?thesis by (simp add: NBITS_def)
qed

lemma read_bits_length: "length (snd (read_bits n r)) = n"
  by (auto simp: read_bits_def split: option.splits)

lemma read_bits_nth:
  "k < n \<Longrightarrow> snd (read_bits n r) ! k =
     (case r of None \<Rightarrow> 0 | Some ws \<Rightarrow> if k < length ws then ws ! k else 0)"
  by (auto simp: read_bits_def nth_append split: option.splits)

lemma TEST_BIT_read_bits:
  fixes r :: "'w::len word list option"
  assumes "c < x"
  shows "TEST_BIT c (snd (read_bits (NBITS TYPE('w) x) r)) \<noteq> 0 \<longleftrightarrow> field_bit c r"
  using NBITS_index [OF assms, where ?'w = 'w]
  by (auto simp: TEST_BIT_bit read_bits_nth field_bit_def split: option.splits)

lemma button_in_range_iff:
  "button_in_range i n a \<longleftrightarrow> (\<exists>j. i \<le> j \<and> j < n \<and> TEST_BIT j a \<noteq> 0)"
proof (induction i n a rule: button_in_range.induct)
  case (1 i n keybits)
  show ?case
  proof (cases "i < n")
    case False
    then show ?thesis by (simp add: button_in_range.simps [of i n keybits])
  next
    case in_range: True
    show ?thesis
    proof (cases "TEST_BIT i keybits \<noteq> 0")
      case True
      with in_range show ?thesis
        by (auto simp: button_in_range.simps [of i n keybits])
    next
      case False
      with in_range "1.IH" have "button_in_range i n keybits \<longleftrightarrow>
          (\<exists>j. Suc i \<le> j \<and> j < n \<and> TEST_BIT j keybits \<noteq> 0)"
        by (simp add: button_in_range.simps [of i n keybits])
      also have "\<dots> \<longleftrightarrow> (\<exists>j. i \<le> j \<and> j < n \<and> TEST_BIT j keybits \<noteq> 0)"
      proof
        assume "\<exists>j. Suc i \<le> j \<and> j < n \<and> TEST_BIT j keybits \<noteq> 0"
        then show "\<exists>j. i \<le> j \<and> j < n \<and> TEST_BIT j keybits \<noteq> 0"
          by (auto dest: Suc_leD)
      next
        assume "\<exists>j. i \<le> j \<and> j < n \<and> TEST_BIT j keybits \<noteq> 0"
        then obtain j where j: "i \<le> j" "j < n" "TEST_BIT j keybits \<noteq> 0"
          by blast
        with False have "j \<noteq> i"
          by auto
        with j have "Suc i \<le> j"
          by simp
        with j show "\<exists>j. Suc i \<le> j \<and> j < n \<and> TEST_BIT j keybits \<noteq> 0"
          by blast
      qed
      finally show ?thesis .
    qed
  qed
qed

lemma bex_upt: "(\<exists>c \<in> set [a ..< b]. P c) \<longleftrightarrow> (\<exists>c. a \<le> c \<and> c < b \<and> P c)"
  by auto

lemma range_cong:
  assumes "\<And>c. c < m \<Longrightarrow> P c \<longleftrightarrow> Q c" and "b \<le> (m :: nat)"
  shows "(\<exists>j. a \<le> j \<and> j < b \<and> P j) \<longleftrightarrow> (\<exists>j. a \<le> j \<and> j < b \<and> Q j)"
  using assms by (meson less_le_trans)

lemma bex_field_bit_None: "\<not> (\<exists>c \<in> S. field_bit c (None :: 'w::len word list option))"
  by (simp add: field_bit_def)

lemma read_bits_ok: "fst (read_bits n r) \<longleftrightarrow> r \<noteq> None"
  by (simp add: read_bits_def split: option.splits)

lemma field_bit_None: "\<not> field_bit c None"
  by (simp add: field_bit_def)

text \<open>
  C8. \<^verbatim>\<open>is_gamepad\<close> is true of a device's capability bit-fields if and only if the device
  reports both absolute axes \<^verbatim>\<open>ABS_X\<close> and \<^verbatim>\<open>ABS_Y\<close>, or reports at least one key code in
  one of the two 16-code ranges that start at \<^verbatim>\<open>BTN_JOYSTICK\<close> and at \<^verbatim>\<open>BTN_GAMEPAD\<close>.
\<close>

theorem is_gamepad_iff:
  fixes d :: "('a::len word list, 'b) evdev_scheme"
  shows "is_gamepad d \<longleftrightarrow> gamepad_spec d"
proof -
  obtain ev_ok evbits where ev: "read_bits (NBITS TYPE('a) EV_MAX) (ev_bits d) = (ev_ok, evbits)"
    by (cases "read_bits (NBITS TYPE('a) EV_MAX) (ev_bits d)")
  obtain abs_ok absbits where ab: "read_bits (NBITS TYPE('a) ABS_MAX) (abs_bits d) = (abs_ok, absbits)"
    by (cases "read_bits (NBITS TYPE('a) ABS_MAX) (abs_bits d)")
  obtain key_ok keybits where ke: "read_bits (NBITS TYPE('a) KEY_MAX) (key_bits d) = (key_ok, keybits)"
    by (cases "read_bits (NBITS TYPE('a) KEY_MAX) (key_bits d)")
  have evabs: "TEST_BIT EV_ABS evbits \<noteq> 0 \<longleftrightarrow> field_bit EV_ABS (ev_bits d)"
    using TEST_BIT_read_bits [of EV_ABS EV_MAX "ev_bits d"] ev by (simp add: EV_ABS_def EV_MAX_def)
  have evkey: "TEST_BIT EV_KEY evbits \<noteq> 0 \<longleftrightarrow> field_bit EV_KEY (ev_bits d)"
    using TEST_BIT_read_bits [of EV_KEY EV_MAX "ev_bits d"] ev by (simp add: EV_KEY_def EV_MAX_def)
  have absx: "TEST_BIT ABS_X absbits \<noteq> 0 \<longleftrightarrow> field_bit ABS_X (abs_bits d)"
    using TEST_BIT_read_bits [of ABS_X ABS_MAX "abs_bits d"] ab by (simp add: ABS_X_def ABS_MAX_def)
  have absy: "TEST_BIT ABS_Y absbits \<noteq> 0 \<longleftrightarrow> field_bit ABS_Y (abs_bits d)"
    using TEST_BIT_read_bits [of ABS_Y ABS_MAX "abs_bits d"] ab by (simp add: ABS_Y_def ABS_MAX_def)
  have key: "TEST_BIT c keybits \<noteq> 0 \<longleftrightarrow> field_bit c (key_bits d)" if "c < KEY_MAX" for c
    using TEST_BIT_read_bits [OF that, of "key_bits d"] ke by simp
  have ok: "ev_ok \<longleftrightarrow> ev_bits d \<noteq> None" "abs_ok \<longleftrightarrow> abs_bits d \<noteq> None"
    "key_ok \<longleftrightarrow> key_bits d \<noteq> None"
    using read_bits_ok [of "NBITS TYPE('a) EV_MAX" "ev_bits d"]
      read_bits_ok [of "NBITS TYPE('a) ABS_MAX" "abs_bits d"]
      read_bits_ok [of "NBITS TYPE('a) KEY_MAX" "key_bits d"] ev ab ke by simp_all
  have le1: "BTN_JOYSTICK + 16 \<le> KEY_MAX" by (simp add: BTN_JOYSTICK_def KEY_MAX_def)
  have le1: "BTN_JOYSTICK + 16 \<le> KEY_MAX" by (simp add: BTN_JOYSTICK_def KEY_MAX_def)
  have le2: "BTN_GAMEPAD + 16 \<le> KEY_MAX" by (simp add: BTN_GAMEPAD_def KEY_MAX_def)
  have joy: "button_in_range BTN_JOYSTICK (BTN_JOYSTICK + 16) keybits \<longleftrightarrow>
      (\<exists>c \<in> set [BTN_JOYSTICK ..< BTN_JOYSTICK + 16]. field_bit c (key_bits d))"
    unfolding button_in_range_iff bex_upt
    by (rule range_cong [OF key le1])
  have pad: "button_in_range BTN_GAMEPAD (BTN_GAMEPAD + 16) keybits \<longleftrightarrow>
      (\<exists>c \<in> set [BTN_GAMEPAD ..< BTN_GAMEPAD + 16]. field_bit c (key_bits d))"
    unfolding button_in_range_iff bex_upt
    by (rule range_cong [OF key le2])
  have "is_gamepad d \<longleftrightarrow>
      ev_ok \<and> (TEST_BIT EV_ABS evbits \<noteq> 0 \<and> abs_ok \<and>
             TEST_BIT ABS_X absbits \<noteq> 0 \<and> TEST_BIT ABS_Y absbits \<noteq> 0 \<or>
             TEST_BIT EV_KEY evbits \<noteq> 0 \<and> key_ok \<and>
             (button_in_range BTN_JOYSTICK (BTN_JOYSTICK + 16) keybits \<or>
              button_in_range BTN_GAMEPAD (BTN_GAMEPAD + 16) keybits))"
    by (simp add: is_gamepad_def ev ab ke)
  also have "\<dots> \<longleftrightarrow> gamepad_spec d"
    unfolding evabs evkey absx absy joy pad ok gamepad_spec_def reports_abs_def reports_key_def
      set_append bex_Un
    by (cases "ev_bits d"; cases "abs_bits d"; cases "key_bits d";
        simp add: field_bit_None bex_field_bit_None) blast+
  finally show ?thesis .
qed

subsection \<open>\<^verbatim>\<open>enumerate_buttons_axes\<close>\<close>

lemma count_set_Suc:
  "a \<le> b \<Longrightarrow> count_set P a (Suc b) = count_set P a b + (if P b then 1 else 0)"
  by (simp add: count_set_def)

lemma count_set_empty: "b \<le> a \<Longrightarrow> count_set P a b = 0"
  by (simp add: count_set_def)

lemma fold_button_step_frame:
  "abs_map (fold (button_step kb) xs c) = abs_map c
   \<and> hat_map (fold (button_step kb) xs c) = hat_map c
   \<and> num_axes (fold (button_step kb) xs c) = num_axes c
   \<and> num_hats (fold (button_step kb) xs c) = num_hats c"
  by (induction xs arbitrary: c) (simp_all add: button_step_def)

lemma fold_button_step:
  fixes kb :: "'w::len word list"
  defines "key \<equiv> \<lambda>i. TEST_BIT i kb \<noteq> 0"
  assumes "b \<le> length (btn_map c)"
  shows "length (btn_map (fold (button_step kb) [a ..< b] c)) = length (btn_map c)
    \<and> num_buttons (fold (button_step kb) [a ..< b] c) = num_buttons c + int (count_set key a b)
    \<and> (\<forall>i < length (btn_map c). btn_map (fold (button_step kb) [a ..< b] c) ! i =
         (if a \<le> i \<and> i < b \<and> key i then num_buttons c + int (count_set key a i)
          else btn_map c ! i))"
  using assms(2)
proof (induction b)
  case 0
  show ?case by (simp add: count_set_def)
next
  case (Suc b)
  show ?case
  proof (cases "a \<le> b")
    case False
    then show ?thesis by (auto simp: count_set_empty)
  next
    case True
    let ?c = "fold (button_step kb) [a ..< b] c"
    from Suc have IH:
      "length (btn_map ?c) = length (btn_map c)"
      "num_buttons ?c = num_buttons c + int (count_set key a b)"
      "\<forall>i < length (btn_map c). btn_map ?c ! i =
         (if a \<le> i \<and> i < b \<and> key i then num_buttons c + int (count_set key a i)
          else btn_map c ! i)"
      by simp_all
    have step: "fold (button_step kb) [a ..< Suc b] c = button_step kb b ?c"
      using True by simp
    have blen: "b < length (btn_map c)"
      using Suc.prems by simp
    show ?thesis
    proof (cases "key b")
      case False
      then have "button_step kb b ?c = ?c"
        by (simp add: button_step_def key_def)
      with IH True False show ?thesis
        unfolding step by (auto simp: count_set_Suc less_Suc_eq)
    next
      case kb: True
      then have eq: "button_step kb b ?c =
          ?c\<lparr>btn_map := (btn_map ?c)[b := num_buttons ?c], num_buttons := num_buttons ?c + 1\<rparr>"
        by (simp add: button_step_def key_def)
      have 1: "length (btn_map (button_step kb b ?c)) = length (btn_map c)"
        by (simp add: eq IH(1))
      have 2: "num_buttons (button_step kb b ?c) = num_buttons c + int (count_set key a (Suc b))"
        using True kb by (simp add: eq IH(2) count_set_Suc)
      have 3: "\<forall>i < length (btn_map c). btn_map (button_step kb b ?c) ! i =
         (if a \<le> i \<and> i < Suc b \<and> key i then num_buttons c + int (count_set key a i)
          else btn_map c ! i)"
      proof (intro allI impI)
        fix i assume i: "i < length (btn_map c)"
        show "btn_map (button_step kb b ?c) ! i =
         (if a \<le> i \<and> i < Suc b \<and> key i then num_buttons c + int (count_set key a i)
          else btn_map c ! i)"
        proof (cases "i = b")
          case True
          with \<open>a \<le> b\<close> kb blen show ?thesis
            by (simp add: eq IH(1) IH(2))
        next
          case False
          with i IH(3) show ?thesis
            by (simp add: eq less_Suc_eq)
        qed
      qed
      from 1 2 3 show ?thesis
        unfolding step by blast
    qed
  qed
qed


lemma axis_step_abs_map:
  "abs_map (axis_step info ab i c) =
     (if TEST_BIT i ab \<noteq> 0 \<and> \<not> in_hat_range i then (abs_map c)[i := num_axes c] else abs_map c)"
  by (simp add: axis_step_def Let_def in_hat_range_def split: prod.splits)

lemma axis_step_num_axes:
  "num_axes (axis_step info ab i c) =
     (if TEST_BIT i ab \<noteq> 0 \<and> \<not> in_hat_range i then num_axes c + 1 else num_axes c)"
  by (simp add: axis_step_def Let_def in_hat_range_def split: prod.splits)

lemma axis_step_hat_map:
  "hat_map (axis_step info ab i c) =
     (if TEST_BIT i ab \<noteq> 0 \<and> in_hat_range i then (hat_map c)[i := int ((i - ABS_HAT0X) div 2)]
      else hat_map c)"
  by (simp add: axis_step_def Let_def in_hat_range_def split: prod.splits)

lemma fold_axis_step_frame:
  "btn_map (fold (axis_step info ab) xs c) = btn_map c
   \<and> num_buttons (fold (axis_step info ab) xs c) = num_buttons c"
  by (induction xs arbitrary: c) (simp_all add: axis_step_def Let_def split: prod.splits)

lemma fold_axis_step_abs:
  fixes ab :: "'w::len word list"
  defines "ax \<equiv> \<lambda>i. TEST_BIT i ab \<noteq> 0 \<and> \<not> in_hat_range i"
  assumes "b \<le> length (abs_map c)"
  shows "length (abs_map (fold (axis_step info ab) [a ..< b] c)) = length (abs_map c)
    \<and> num_axes (fold (axis_step info ab) [a ..< b] c) = num_axes c + int (count_set ax a b)
    \<and> (\<forall>i < length (abs_map c). abs_map (fold (axis_step info ab) [a ..< b] c) ! i =
         (if a \<le> i \<and> i < b \<and> ax i then num_axes c + int (count_set ax a i)
          else abs_map c ! i))"
  using assms(2)
proof (induction b)
  case 0
  show ?case by (simp add: count_set_def)
next
  case (Suc b)
  show ?case
  proof (cases "a \<le> b")
    case False
    then show ?thesis by (auto simp: count_set_empty)
  next
    case True
    let ?c = "fold (axis_step info ab) [a ..< b] c"
    from Suc have IH:
      "length (abs_map ?c) = length (abs_map c)"
      "num_axes ?c = num_axes c + int (count_set ax a b)"
      "\<forall>i < length (abs_map c). abs_map ?c ! i =
         (if a \<le> i \<and> i < b \<and> ax i then num_axes c + int (count_set ax a i)
          else abs_map c ! i)"
      by simp_all
    have step: "fold (axis_step info ab) [a ..< Suc b] c = axis_step info ab b ?c"
      using True by simp
    have blen: "b < length (abs_map c)"
      using Suc.prems by simp
    have m: "abs_map (axis_step info ab b ?c) =
        (if ax b then (abs_map ?c)[b := num_axes ?c] else abs_map ?c)"
      by (simp add: axis_step_abs_map ax_def)
    have n: "num_axes (axis_step info ab b ?c) = (if ax b then num_axes ?c + 1 else num_axes ?c)"
      by (simp add: axis_step_num_axes ax_def)
    have 1: "length (abs_map (axis_step info ab b ?c)) = length (abs_map c)"
      by (simp add: m IH(1))
    have 2: "num_axes (axis_step info ab b ?c) = num_axes c + int (count_set ax a (Suc b))"
      using True by (simp add: n IH(2) count_set_Suc)
    have 3: "\<forall>i < length (abs_map c). abs_map (axis_step info ab b ?c) ! i =
         (if a \<le> i \<and> i < Suc b \<and> ax i then num_axes c + int (count_set ax a i)
          else abs_map c ! i)"
    proof (intro allI impI)
      fix i assume i: "i < length (abs_map c)"
      show "abs_map (axis_step info ab b ?c) ! i =
         (if a \<le> i \<and> i < Suc b \<and> ax i then num_axes c + int (count_set ax a i)
          else abs_map c ! i)"
      proof (cases "i = b")
        case ib: True
        show ?thesis
        proof (cases "ax b")
          case True
          with \<open>a \<le> b\<close> ib blen show ?thesis
            by (simp add: m IH(1) IH(2))
        next
          case False
          with ib i IH(3) show ?thesis
            by (simp add: m)
        qed
      next
        case False
        with i IH(3) show ?thesis
          by (simp add: m less_Suc_eq)
      qed
    qed
    from 1 2 3 show ?thesis
      unfolding step by blast
  qed
qed

lemma fold_axis_step_hat:
  fixes ab :: "'w::len word list"
  defines "ht \<equiv> \<lambda>i. TEST_BIT i ab \<noteq> 0 \<and> in_hat_range i"
  assumes "b \<le> length (hat_map c)"
  shows "length (hat_map (fold (axis_step info ab) [a ..< b] c)) = length (hat_map c)
    \<and> (\<forall>i < length (hat_map c). hat_map (fold (axis_step info ab) [a ..< b] c) ! i =
         (if a \<le> i \<and> i < b \<and> ht i then int ((i - ABS_HAT0X) div 2) else hat_map c ! i))"
  using assms(2)
proof (induction b)
  case 0
  show ?case by simp
next
  case (Suc b)
  show ?case
  proof (cases "a \<le> b")
    case False
    then show ?thesis by auto
  next
    case True
    let ?c = "fold (axis_step info ab) [a ..< b] c"
    from Suc have IH:
      "length (hat_map ?c) = length (hat_map c)"
      "\<forall>i < length (hat_map c). hat_map ?c ! i =
         (if a \<le> i \<and> i < b \<and> ht i then int ((i - ABS_HAT0X) div 2) else hat_map c ! i)"
      by simp_all
    have step: "fold (axis_step info ab) [a ..< Suc b] c = axis_step info ab b ?c"
      using True by simp
    have blen: "b < length (hat_map c)"
      using Suc.prems by simp
    have m: "hat_map (axis_step info ab b ?c) =
        (if ht b then (hat_map ?c)[b := int ((b - ABS_HAT0X) div 2)] else hat_map ?c)"
      by (simp add: axis_step_hat_map ht_def)
    have 1: "length (hat_map (axis_step info ab b ?c)) = length (hat_map c)"
      by (simp add: m IH(1))
    have 3: "\<forall>i < length (hat_map c). hat_map (axis_step info ab b ?c) ! i =
         (if a \<le> i \<and> i < Suc b \<and> ht i then int ((i - ABS_HAT0X) div 2) else hat_map c ! i)"
    proof (intro allI impI)
      fix i assume i: "i < length (hat_map c)"
      show "hat_map (axis_step info ab b ?c) ! i =
         (if a \<le> i \<and> i < Suc b \<and> ht i then int ((i - ABS_HAT0X) div 2) else hat_map c ! i)"
      proof (cases "i = b")
        case ib: True
        show ?thesis
        proof (cases "ht b")
          case True
          with \<open>a \<le> b\<close> ib blen show ?thesis
            by (simp add: m IH(1))
        next
          case False
          with ib i IH(2) show ?thesis
            by (simp add: m)
        qed
      next
        case False
        with i IH(2) show ?thesis
          by (simp add: m less_Suc_eq)
      qed
    qed
    from 1 3 show ?thesis
      unfolding step by blast
  qed
qed


lemma count_set_cong:
  assumes "\<And>j. a \<le> j \<Longrightarrow> j < b \<Longrightarrow> P j \<longleftrightarrow> Q j"
  shows "count_set P a b = count_set Q a b"
proof -
  have "filter P [a ..< b] = filter Q [a ..< b]"
    by (rule filter_cong) (simp_all add: assms)
  then show ?thesis by (simp add: count_set_def)
qed

lemma enumerate_buttons:
  fixes d :: "('w::len word list, 'a) evdev_scheme"
  shows "btn_map (enumerate_buttons_axes d c) = map (button_index_spec d) [0 ..< KEY_MAX]
    \<and> num_buttons (enumerate_buttons_axes d c) = num_buttons_spec d"
proof -
  define kb where "kb = snd (read_bits (NBITS TYPE('w) KEY_MAX) (key_bits d))"
  define ab where "ab = snd (read_bits (NBITS TYPE('w) ABS_MAX) (abs_bits d))"
  define c0 where "c0 = c\<lparr>num_buttons := 0, num_axes := 0, num_hats := 0,
                 btn_map := replicate KEY_MAX (- 1),
                 abs_map := replicate ABS_MAX (- 1),
                 hat_map := replicate ABS_MAX (- 1),
                 axis_initial := replicate ABS_MAX 0\<rparr>"
  define c1 where "c1 = fold (button_step kb) [BTN_JOYSTICK ..< KEY_MAX] c0"
  define c2 where "c2 = fold (button_step kb) [BTN_MISC ..< BTN_JOYSTICK] c1"
  define tb where "tb = (\<lambda>i. TEST_BIT i kb \<noteq> 0)"
  define key where "key = (\<lambda>j. field_bit j (key_bits d))"
  have E: "enumerate_buttons_axes d c = fold (axis_step (abs_info d) ab) [0 ..< ABS_MAX] c2"
    by (simp add: enumerate_buttons_axes_def Let_def kb_def ab_def c0_def c1_def c2_def)
  have tb_key: "tb j \<longleftrightarrow> key j" if "j < KEY_MAX" for j
    using TEST_BIT_read_bits [OF that, of "key_bits d"] by (simp add: tb_def key_def kb_def)
  have jm: "BTN_JOYSTICK \<le> KEY_MAX" "BTN_MISC \<le> BTN_JOYSTICK"
    by (simp_all add: BTN_JOYSTICK_def KEY_MAX_def BTN_MISC_def)
  have cnt1: "count_set tb BTN_JOYSTICK i = count_set key BTN_JOYSTICK i" if "i \<le> KEY_MAX" for i
    using that by (intro count_set_cong tb_key) simp
  have cnt2: "count_set tb BTN_MISC i = count_set key BTN_MISC i" if "i \<le> BTN_JOYSTICK" for i
    using that jm by (intro count_set_cong tb_key) simp
  have l0: "length (btn_map c0) = KEY_MAX" "num_buttons c0 = 0"
    "\<And>i. i < KEY_MAX \<Longrightarrow> btn_map c0 ! i = - 1"
    by (simp_all add: c0_def)
  have s1: "length (btn_map c1) = KEY_MAX"
    "num_buttons c1 = int (count_set tb BTN_JOYSTICK KEY_MAX)"
    "\<forall>i < KEY_MAX. btn_map c1 ! i =
         (if BTN_JOYSTICK \<le> i \<and> i < KEY_MAX \<and> tb i then int (count_set tb BTN_JOYSTICK i)
          else - 1)"
    using fold_button_step [of KEY_MAX c0 kb BTN_JOYSTICK] l0
    by (simp_all add: c1_def tb_def)
  have s2: "length (btn_map c2) = KEY_MAX"
    "num_buttons c2 = num_buttons c1 + int (count_set tb BTN_MISC BTN_JOYSTICK)"
    "\<forall>i < KEY_MAX. btn_map c2 ! i =
         (if BTN_MISC \<le> i \<and> i < BTN_JOYSTICK \<and> tb i
          then num_buttons c1 + int (count_set tb BTN_MISC i)
          else btn_map c1 ! i)"
    using fold_button_step [of BTN_JOYSTICK c1 kb BTN_MISC] s1(1) jm
    by (simp_all add: c2_def tb_def)
  have fr: "btn_map (enumerate_buttons_axes d c) = btn_map c2"
    "num_buttons (enumerate_buttons_axes d c) = num_buttons c2"
    using fold_axis_step_frame [of "abs_info d" ab "[0 ..< ABS_MAX]" c2] by (simp_all add: E)
  have nb: "num_buttons c2 = num_buttons_spec d"
    using cnt1 [of KEY_MAX] cnt2 [of BTN_JOYSTICK]
    by (simp add: s2(2) s1(2) num_buttons_spec_def key_def Let_def)
  have "btn_map c2 = map (button_index_spec d) [0 ..< KEY_MAX]"
  proof (rule nth_equalityI)
    show "length (btn_map c2) = length (map (button_index_spec d) [0 ..< KEY_MAX])"
      by (simp add: s2(1))
  next
    fix i assume "i < length (btn_map c2)"
    then have i: "i < KEY_MAX" by (simp add: s2(1))
    have v: "btn_map c2 ! i =
         (if BTN_MISC \<le> i \<and> i < BTN_JOYSTICK \<and> tb i
          then int (count_set tb BTN_JOYSTICK KEY_MAX) + int (count_set tb BTN_MISC i)
          else if BTN_JOYSTICK \<le> i \<and> i < KEY_MAX \<and> tb i then int (count_set tb BTN_JOYSTICK i)
          else - 1)"
      using s2(3) s1(3) i by (simp add: s1(2))
    have "btn_map c2 ! i = button_index_spec d i"
    proof (cases "BTN_JOYSTICK \<le> i")
      case True
      with i v tb_key [OF i] cnt1 [of i] show ?thesis
        by (simp add: button_index_spec_def key_def Let_def)
    next
      case False
      then have "i \<le> BTN_JOYSTICK" by simp
      with False i v tb_key [OF i] cnt1 [of KEY_MAX] cnt2 [of i] show ?thesis
        by (simp add: button_index_spec_def key_def Let_def)
    qed
    with i show "btn_map c2 ! i = map (button_index_spec d) [0 ..< KEY_MAX] ! i"
      by simp
  qed
  with fr nb show ?thesis by simp
qed


lemma enumerate_axes:
  fixes d :: "('w::len word list, 'a) evdev_scheme"
  shows "abs_map (enumerate_buttons_axes d c) = map (axis_index_spec d) [0 ..< ABS_MAX]
    \<and> num_axes (enumerate_buttons_axes d c) = int (count_set (plain_axis d) 0 ABS_MAX)
    \<and> hat_map (enumerate_buttons_axes d c) = map (hat_index_spec d) [0 ..< ABS_MAX]"
proof -
  define kb where "kb = snd (read_bits (NBITS TYPE('w) KEY_MAX) (key_bits d))"
  define ab where "ab = snd (read_bits (NBITS TYPE('w) ABS_MAX) (abs_bits d))"
  define c0 where "c0 = c\<lparr>num_buttons := 0, num_axes := 0, num_hats := 0,
                 btn_map := replicate KEY_MAX (- 1),
                 abs_map := replicate ABS_MAX (- 1),
                 hat_map := replicate ABS_MAX (- 1),
                 axis_initial := replicate ABS_MAX 0\<rparr>"
  define c2 where "c2 = fold (button_step kb) [BTN_MISC ..< BTN_JOYSTICK]
      (fold (button_step kb) [BTN_JOYSTICK ..< KEY_MAX] c0)"
  define c3 where "c3 = fold (axis_step (abs_info d) ab) [0 ..< ABS_MAX] c2"
  define ax where "ax = (\<lambda>i. TEST_BIT i ab \<noteq> 0 \<and> \<not> in_hat_range i)"
  define ht where "ht = (\<lambda>i. TEST_BIT i ab \<noteq> 0 \<and> in_hat_range i)"
  have E: "enumerate_buttons_axes d c = c3"
    by (simp add: enumerate_buttons_axes_def Let_def kb_def ab_def c0_def c2_def c3_def)
  have tb: "TEST_BIT j ab \<noteq> 0 \<longleftrightarrow> field_bit j (abs_bits d)" if "j < ABS_MAX" for j
    using TEST_BIT_read_bits [OF that, of "abs_bits d"] by (simp add: ab_def)
  have ax_plain: "ax j \<longleftrightarrow> plain_axis d j" if "j < ABS_MAX" for j
    using tb [OF that] by (simp add: ax_def plain_axis_def)
  have cnt: "count_set ax 0 i = count_set (plain_axis d) 0 i" if "i \<le> ABS_MAX" for i
    using that by (intro count_set_cong ax_plain) simp
  have l2: "abs_map c2 = replicate ABS_MAX (- 1)" "hat_map c2 = replicate ABS_MAX (- 1)"
    "num_axes c2 = 0"
    by (simp_all add: c2_def fold_button_step_frame c0_def)
  have a3: "length (abs_map c3) = ABS_MAX"
    "num_axes c3 = int (count_set ax 0 ABS_MAX)"
    "\<forall>i < ABS_MAX. abs_map c3 ! i = (if ax i then int (count_set ax 0 i) else - 1)"
    using fold_axis_step_abs [of ABS_MAX c2 "abs_info d" ab 0]
    by (simp_all add: l2 c3_def ax_def)
  have h3: "length (hat_map c3) = ABS_MAX"
    "\<forall>i < ABS_MAX. hat_map c3 ! i = (if ht i then int ((i - ABS_HAT0X) div 2) else - 1)"
    using fold_axis_step_hat [of ABS_MAX c2 "abs_info d" ab 0]
    by (simp_all add: l2 c3_def ht_def)
  have am: "abs_map c3 = map (axis_index_spec d) [0 ..< ABS_MAX]"
  proof (rule nth_equalityI)
    show "length (abs_map c3) = length (map (axis_index_spec d) [0 ..< ABS_MAX])"
      by (simp add: a3(1))
  next
    fix i assume "i < length (abs_map c3)"
    then have i: "i < ABS_MAX" by (simp add: a3(1))
    with a3(3) ax_plain [OF i] cnt [of i]
    show "abs_map c3 ! i = map (axis_index_spec d) [0 ..< ABS_MAX] ! i"
      by (simp add: axis_index_spec_def)
  qed
  have hm: "hat_map c3 = map (hat_index_spec d) [0 ..< ABS_MAX]"
  proof (rule nth_equalityI)
    show "length (hat_map c3) = length (map (hat_index_spec d) [0 ..< ABS_MAX])"
      by (simp add: h3(1))
  next
    fix i assume "i < length (hat_map c3)"
    then have i: "i < ABS_MAX" by (simp add: h3(1))
    with h3(2) tb [OF i]
    show "hat_map c3 ! i = map (hat_index_spec d) [0 ..< ABS_MAX] ! i"
      by (simp add: hat_index_spec_def ht_def)
  qed
  from am hm a3(2) cnt [of ABS_MAX] show ?thesis
    by (simp add: E)
qed

lemma count_set_image:
  "count_set P a ` {i. a \<le> i \<and> i < b \<and> P i} = {0 ..< count_set P a b}"
proof (induction b)
  case 0
  show ?case by (simp add: count_set_def)
next
  case (Suc b)
  show ?case
  proof (cases "a \<le> b")
    case False
    then have "{i. a \<le> i \<and> i < Suc b \<and> P i} = {}" by auto
    with False show ?thesis by (simp add: count_set_empty)
  next
    case True
    have split: "{i. a \<le> i \<and> i < Suc b \<and> P i} =
        {i. a \<le> i \<and> i < b \<and> P i} \<union> (if P b then {b} else {})"
      using True by (auto simp: less_Suc_eq)
    show ?thesis
      unfolding split image_Un Suc.IH using True
      by (auto simp: count_set_Suc)
  qed
qed

lemma button_indices_dense:
  fixes d :: "('w::len word list, 'a) evdev_scheme"
  shows "set (map (button_index_spec d) [0 ..< KEY_MAX]) - {- 1} =
     {0 ..< num_buttons_spec d}"
proof -
  define key where "key = (\<lambda>j. field_bit j (key_bits d))"
  define n1 where "n1 = count_set key BTN_JOYSTICK KEY_MAX"
  define n2 where "n2 = count_set key BTN_MISC BTN_JOYSTICK"
  define S1 where "S1 = {i. BTN_JOYSTICK \<le> i \<and> i < KEY_MAX \<and> key i}"
  define S2 where "S2 = {i. BTN_MISC \<le> i \<and> i < BTN_JOYSTICK \<and> key i}"
  have jm: "BTN_JOYSTICK \<le> KEY_MAX" "BTN_MISC \<le> BTN_JOYSTICK"
    by (simp_all add: BTN_JOYSTICK_def KEY_MAX_def BTN_MISC_def)
  have f1: "button_index_spec d i = int (count_set key BTN_JOYSTICK i)" if "i \<in> S1" for i
    using that by (simp add: S1_def button_index_spec_def key_def Let_def)
  have f2: "button_index_spec d i = int (n1 + count_set key BTN_MISC i)" if "i \<in> S2" for i
    using that by (auto simp: S2_def button_index_spec_def key_def Let_def n1_def)
  have f3: "button_index_spec d i = - 1" if "i \<notin> S1" "i \<notin> S2" "i < KEY_MAX" for i
    using that by (auto simp: S1_def S2_def button_index_spec_def key_def Let_def)
  have sub: "S1 \<subseteq> {0 ..< KEY_MAX}" "S2 \<subseteq> {0 ..< KEY_MAX}"
    using jm by (auto simp: S1_def S2_def)
  have i1: "count_set key BTN_JOYSTICK ` S1 = {0 ..< n1}"
    unfolding S1_def n1_def by (rule count_set_image)
  have i2: "count_set key BTN_MISC ` S2 = {0 ..< n2}"
    unfolding S2_def n2_def by (rule count_set_image)
  have U: "set (map (button_index_spec d) [0 ..< KEY_MAX]) - {- 1} =
      button_index_spec d ` S1 \<union> button_index_spec d ` S2"
  proof (intro equalityI subsetI)
    fix k assume "k \<in> set (map (button_index_spec d) [0 ..< KEY_MAX]) - {- 1}"
    then obtain i where i: "i < KEY_MAX" "k = button_index_spec d i" "k \<noteq> - 1"
      by auto
    with f3 [of i] have "i \<in> S1 \<or> i \<in> S2" by auto
    with i show "k \<in> button_index_spec d ` S1 \<union> button_index_spec d ` S2" by auto
  next
    fix k assume "k \<in> button_index_spec d ` S1 \<union> button_index_spec d ` S2"
    then obtain i where i: "i \<in> S1 \<or> i \<in> S2" "k = button_index_spec d i"
      by auto
    with sub have "i < KEY_MAX" by auto
    moreover from i f1 [of i] f2 [of i] have "k \<noteq> - 1" by auto
    ultimately show "k \<in> set (map (button_index_spec d) [0 ..< KEY_MAX]) - {- 1}"
      using i by auto
  qed
  have "button_index_spec d ` S1 = (\<lambda>i. int (count_set key BTN_JOYSTICK i)) ` S1"
    by (rule image_cong) (simp_all add: f1)
  also have "\<dots> = int ` (count_set key BTN_JOYSTICK ` S1)"
    by (simp add: image_image)
  also have "\<dots> = {0 ..< int n1}"
    by (simp only: i1 image_int_atLeastLessThan) simp
  finally have I1: "button_index_spec d ` S1 = {0 ..< int n1}" .
  have "button_index_spec d ` S2 = (\<lambda>i. int (n1 + count_set key BTN_MISC i)) ` S2"
    by (rule image_cong) (simp_all add: f2)
  also have "\<dots> = int ` ((+) n1 ` (count_set key BTN_MISC ` S2))"
    by (simp add: image_image)
  also have "\<dots> = {int n1 ..< int (n1 + n2)}"
    by (simp only: i2 image_add_atLeastLessThan image_int_atLeastLessThan)
      (simp add: add.commute)
  finally have I2: "button_index_spec d ` S2 = {int n1 ..< int (n1 + n2)}" .
  have "{0 ..< int n1} \<union> {int n1 ..< int (n1 + n2)} = {0 ..< int (n1 + n2)}"
    by (rule ivl_disj_un) simp_all
  with U I1 I2 show ?thesis
    by (simp add: num_buttons_spec_def Let_def n1_def n2_def key_def)
qed

lemma axis_indices_dense:
  fixes d :: "('w::len word list, 'a) evdev_scheme"
  shows "set (map (axis_index_spec d) [0 ..< ABS_MAX]) - {- 1} =
     {0 ..< int (count_set (plain_axis d) 0 ABS_MAX)}"
proof -
  define S where "S = {i. 0 \<le> i \<and> i < ABS_MAX \<and> plain_axis d i}"
  have f1: "axis_index_spec d i = int (count_set (plain_axis d) 0 i)" if "i \<in> S" for i
    using that by (simp add: S_def axis_index_spec_def)
  have f3: "axis_index_spec d i = - 1" if "i \<notin> S" "i < ABS_MAX" for i
    using that by (auto simp: S_def axis_index_spec_def)
  have i1: "count_set (plain_axis d) 0 ` S = {0 ..< count_set (plain_axis d) 0 ABS_MAX}"
    unfolding S_def by (rule count_set_image)
  have "set (map (axis_index_spec d) [0 ..< ABS_MAX]) - {- 1} = axis_index_spec d ` S"
  proof (intro equalityI subsetI)
    fix k assume "k \<in> set (map (axis_index_spec d) [0 ..< ABS_MAX]) - {- 1}"
    then obtain i where i: "i < ABS_MAX" "k = axis_index_spec d i" "k \<noteq> - 1"
      by auto
    with f3 [of i] have "i \<in> S" by auto
    with i show "k \<in> axis_index_spec d ` S" by auto
  next
    fix k assume "k \<in> axis_index_spec d ` S"
    then obtain i where i: "i \<in> S" "k = axis_index_spec d i"
      by auto
    then have "i < ABS_MAX" by (simp add: S_def)
    moreover from i f1 [of i] have "k \<noteq> - 1" by auto
    ultimately show "k \<in> set (map (axis_index_spec d) [0 ..< ABS_MAX]) - {- 1}"
      using i by auto
  qed
  also have "axis_index_spec d ` S = (\<lambda>i. int (count_set (plain_axis d) 0 i)) ` S"
    by (rule image_cong) (simp_all add: f1)
  also have "\<dots> = int ` (count_set (plain_axis d) 0 ` S)"
    by (simp add: image_image)
  also have "\<dots> = {0 ..< int (count_set (plain_axis d) 0 ABS_MAX)}"
    by (simp only: i1 image_int_atLeastLessThan) simp
  finally show ?thesis .
qed

text \<open>
  C4, as amended. For every capability bit-field, \<^verbatim>\<open>enumerate_buttons_axes\<close> numbers the
  advertised buttons 0, 1, 2, ... in scan order, the codes from \<^verbatim>\<open>BTN_JOYSTICK\<close> up to
  \<^verbatim>\<open>KEY_MAX\<close> first and the codes from \<^verbatim>\<open>BTN_MISC\<close> up to \<^verbatim>\<open>BTN_JOYSTICK\<close> second; it
  numbers the advertised axes with a code below \<^verbatim>\<open>ABS_MAX\<close> and outside the hat
  sub-range 0, 1, 2, ... in code order, and \<^verbatim>\<open>num_axes\<close> counts those; a hat code gets
  half its offset in the hat sub-range (two codes per hat). The indices in use are
  exactly 0 up to the count (dense, zero-based). The three maps depend on the bit-fields
  only, not on the record the function starts from, so a second run on the result of the
  first yields the same assignment.
\<close>

theorem enumerate_buttons_axes_indices:
  fixes d :: "('w::len word list, 'a) evdev_scheme"
  shows
    "btn_map (enumerate_buttons_axes d c) = map (button_index_spec d) [0 ..< KEY_MAX]
     \<and> num_buttons (enumerate_buttons_axes d c) = num_buttons_spec d
     \<and> set (btn_map (enumerate_buttons_axes d c)) - {- 1} =
         {0 ..< num_buttons (enumerate_buttons_axes d c)}
     \<and> abs_map (enumerate_buttons_axes d c) = map (axis_index_spec d) [0 ..< ABS_MAX]
     \<and> num_axes (enumerate_buttons_axes d c) = int (count_set (plain_axis d) 0 ABS_MAX)
     \<and> set (abs_map (enumerate_buttons_axes d c)) - {- 1} =
         {0 ..< num_axes (enumerate_buttons_axes d c)}
     \<and> hat_map (enumerate_buttons_axes d c) = map (hat_index_spec d) [0 ..< ABS_MAX]
     \<and> btn_map (enumerate_buttons_axes d (enumerate_buttons_axes d c)) =
         btn_map (enumerate_buttons_axes d c)
     \<and> abs_map (enumerate_buttons_axes d (enumerate_buttons_axes d c)) =
         abs_map (enumerate_buttons_axes d c)
     \<and> hat_map (enumerate_buttons_axes d (enumerate_buttons_axes d c)) =
         hat_map (enumerate_buttons_axes d c)"
proof -
  note b = enumerate_buttons [of d]
  note a = enumerate_axes [of d]
  have bd: "set (btn_map (enumerate_buttons_axes d c)) - {- 1} =
      {0 ..< num_buttons (enumerate_buttons_axes d c)}"
    using b [of c] button_indices_dense [of d] by simp
  have ad: "set (abs_map (enumerate_buttons_axes d c)) - {- 1} =
      {0 ..< num_axes (enumerate_buttons_axes d c)}"
    using a [of c] axis_indices_dense [of d] by simp
  from b [of c] a [of c] b [of "enumerate_buttons_axes d c"]
    a [of "enumerate_buttons_axes d c"] bd ad
  show ?thesis by simp
qed

lemma last_axis_pad_bits:
  "field_bit j (abs_bits last_axis_pad) \<longleftrightarrow> j = 63"
proof -
  have "bit (2 ^ 31 :: int) n \<longleftrightarrow> n = 31" for n
    unfolding bit_exp_iff by auto
  then have top: "bit (0x80000000 :: int) n \<longleftrightarrow> n = 31" for n
    by simp
  have a: "j = 63 \<longleftrightarrow> j div 32 = 1 \<and> j mod 32 = 31"
    by presburger
  have "j div 32 = 0 \<or> j div 32 = 1 \<or> j div 32 \<ge> 2"
    by arith
  then show ?thesis
    unfolding a by (auto simp: field_bit_def last_axis_pad_def top)
qed

text \<open>
  C4 as stated fails for a device that advertises the axis with code \<^verbatim>\<open>ABS_MAX\<close> (0x3f):
  the bit is read into the 64-bit field and the axis lies outside the hat sub-range, so
  it is the first advertised axis and its sequential index would be 0; yet the scan
  stops below \<^verbatim>\<open>ABS_MAX\<close>, no axis is counted and no index is assigned.
\<close>

theorem enumerate_last_axis_counterexample:
  "plain_axis last_axis_pad ABS_MAX
   \<and> axis_index_spec last_axis_pad ABS_MAX = 0
   \<and> num_axes (enumerate_buttons_axes last_axis_pad zero_controller) = 0
   \<and> abs_map (enumerate_buttons_axes last_axis_pad zero_controller) = replicate ABS_MAX (- 1)"
proof -
  have p: "plain_axis last_axis_pad j \<longleftrightarrow> j = 63" for j
    by (auto simp: plain_axis_def last_axis_pad_bits in_hat_range_def ABS_HAT0X_def ABS_HAT3Y_def)
  have none: "filter (plain_axis last_axis_pad) [0 ..< 63] = []"
    by (simp add: filter_empty_conv p)
  have idx: "axis_index_spec last_axis_pad j = - 1" if "j < 63" for j
    using that by (simp add: axis_index_spec_def p)
  have m: "map (axis_index_spec last_axis_pad) [0 ..< 63] = replicate 63 (- 1)"
    by (rule nth_equalityI) (simp_all add: idx)
  from enumerate_axes [of last_axis_pad zero_controller] show ?thesis
    by (simp add: p axis_index_spec_def count_set_def none m ABS_MAX_def)
qed

subsection \<open>\<^verbatim>\<open>scan_controllers\<close>\<close>

lemma example_pad_is_gamepad: "is_gamepad example_pad"
  by (simp add: is_gamepad_def example_pad_def read_bits_def NBITS_def TEST_BIT_def
      EV_MAX_def ABS_MAX_def KEY_MAX_def EV_ABS_def ABS_X_def ABS_Y_def)

lemma example_node_detected: "detected example_node"
  using example_pad_is_gamepad by (simp add: detected_def example_node_def example_pad_def)


lemma scan_loop_break:
  "num_controllers a \<ge> MAX_CONTROLLERS \<Longrightarrow> scan_loop (e # es) a = a"
  by simp

lemma scan_loop_skip:
  assumes "num_controllers a < MAX_CONTROLLERS" and "\<not> detected e"
  shows "\<exists>a'. scan_loop (e # es) a = scan_loop es a'
      \<and> num_controllers a' = num_controllers a
      \<and> registered a' = registered a
      \<and> length (controllers a') = length (controllers a)"
proof (cases "5 < length (d_name e) \<and> take 5 (d_name e) = ''event''")
  case False
  with assms(1) have "scan_loop (e # es) a = scan_loop es a"
    by auto
  then show ?thesis by blast
next
  case named: True
  show ?thesis
  proof (cases "node_open e")
    case None
    with assms(1) named have "scan_loop (e # es) a = scan_loop es a"
      by (simp add: Let_def)
    then show ?thesis by blast
  next
    case (Some fdev)
    obtain f dev where fdev: "fdev = (f, dev)" by (cases fdev)
    show ?thesis
    proof (cases "is_gamepad dev")
      case False
      with assms(1) named Some fdev have "scan_loop (e # es) a = scan_loop es a"
        by (simp add: Let_def)
      then show ?thesis by blast
    next
      case True
      with assms(2) named Some fdev have noid: "dev_id dev = None"
        by (simp add: detected_def)
      define a1 where "a1 = a\<lparr>controllers := (controllers a)[nat (num_controllers a) :=
          zero_controller\<lparr>fd := f, path := snprintf_buf MAX_PATH_LEN
            (snprintf_buf MAX_PATH_LEN (''/dev/input/'' @ d_name e))\<rparr>]\<rparr>"
      from assms(1) named Some fdev True noid have "scan_loop (e # es) a = scan_loop es a1"
        by (simp add: Let_def a1_def)
      moreover have "num_controllers a1 = num_controllers a"
        "length (controllers a1) = length (controllers a)"
        "registered a1 = registered a"
        by (simp_all add: a1_def registered_def)
      ultimately show ?thesis by blast
    qed
  qed
qed

lemma snprintf_path: "snprintf_buf MAX_PATH_LEN (snprintf_buf MAX_PATH_LEN s) = take 511 s"
  by (simp add: snprintf_buf_def MAX_PATH_LEN_def)

lemma read_name_255:
  "read_name MAX_NAME_LEN fb r = (case r of None \<Rightarrow> fb | Some s \<Rightarrow> take 255 s)"
  by (cases r) (simp_all add: read_name_def MAX_NAME_LEN_def)

lemma scan_loop_add:
  assumes "num_controllers a < MAX_CONTROLLERS" and "detected e"
  shows "scan_loop (e # es) a =
     scan_loop es (a\<lparr>controllers := (controllers a)[nat (num_controllers a) := controller_of e],
                     num_controllers := num_controllers a + 1\<rparr>)"
proof -
  from assms(2) obtain f dev i where
    named: "5 < length (d_name e)" "take 5 (d_name e) = ''event''"
    and op: "node_open e = Some (f, dev)" and gp: "is_gamepad dev" and did: "dev_id dev = Some i"
    by (auto simp: detected_def split: option.splits)
  have c: "controller_of e = enumerate_buttons_axes dev
       (zero_controller\<lparr>fd := f, path := node_path e, ctrl_id := i,
          name := read_name MAX_NAME_LEN ''Unknown Controller'' (dev_name dev),
          guid := build_guid i\<rparr>)"
    by (simp add: controller_of_def op did read_name_255)
  show ?thesis
    using assms(1) named op gp did
    by (simp add: Let_def c snprintf_path node_path_def)
qed


lemma take_Suc_update: "n < length xs \<Longrightarrow> take (Suc n) (xs[n := x]) = take n xs @ [x]"
  by (simp add: take_Suc_conv_app_nth)

lemma scan_loop_registered:
  assumes "0 \<le> num_controllers a" and "num_controllers a \<le> MAX_CONTROLLERS"
    and "length (controllers a) = 8"
  shows "registered (scan_loop es a) =
       take 8 (registered a @ map controller_of (filter detected es))
     \<and> 0 \<le> num_controllers (scan_loop es a)
     \<and> num_controllers (scan_loop es a) \<le> MAX_CONTROLLERS
     \<and> length (controllers (scan_loop es a)) = 8"
  using assms
proof (induction es arbitrary: a)
  case Nil
  then show ?case
    by (simp add: registered_def MAX_CONTROLLERS_def)
next
  case (Cons e es)
  have len: "length (registered a) = nat (num_controllers a)"
    using Cons.prems by (simp add: registered_def MAX_CONTROLLERS_def)
  show ?case
  proof (cases "num_controllers a \<ge> MAX_CONTROLLERS")
    case True
    with Cons.prems have "num_controllers a = 8"
      by (simp add: MAX_CONTROLLERS_def)
    with len have "length (registered a) = 8" by simp
    with True Cons.prems show ?thesis
      by (simp add: MAX_CONTROLLERS_def)
  next
    case False
    then have lt: "num_controllers a < MAX_CONTROLLERS" by simp
    show ?thesis
    proof (cases "detected e")
      case nd: False
      from scan_loop_skip [OF lt nd, of es] obtain a' where a':
        "scan_loop (e # es) a = scan_loop es a'"
        "num_controllers a' = num_controllers a"
        "registered a' = registered a"
        "length (controllers a') = length (controllers a)"
        by blast
      from Cons.IH [of a'] Cons.prems a'(2-4) nd show ?thesis
        unfolding a'(1) by simp
    next
      case True
      define a' where "a' = a\<lparr>controllers := (controllers a)[nat (num_controllers a) := controller_of e],
                     num_controllers := num_controllers a + 1\<rparr>"
      have step: "scan_loop (e # es) a = scan_loop es a'"
        unfolding a'_def by (rule scan_loop_add [OF lt True])
      have n: "nat (num_controllers a) < length (controllers a)"
        using lt Cons.prems by (simp add: MAX_CONTROLLERS_def)
      have "registered a' = take (Suc (nat (num_controllers a)))
          ((controllers a)[nat (num_controllers a) := controller_of e])"
        using Cons.prems(1) by (simp add: a'_def registered_def nat_add_distrib)
      also have "\<dots> = registered a @ [controller_of e]"
        using take_Suc_update [OF n] by (simp add: registered_def)
      finally have r: "registered a' = registered a @ [controller_of e]" .
      have pre: "0 \<le> num_controllers a'" "num_controllers a' \<le> MAX_CONTROLLERS"
        "length (controllers a') = 8"
        using lt Cons.prems by (simp_all add: a'_def)
      from Cons.IH [OF pre] True show ?thesis
        unfolding step by (simp add: r)
    qed
  qed
qed


lemma detected_is_gamepad:
  "detected e \<Longrightarrow> \<exists>f dev. node_open e = Some (f, dev) \<and> is_gamepad dev"
  by (auto simp: detected_def split: option.splits)

text \<open>
  C10. After \<^verbatim>\<open>scan_controllers\<close>, started with the array of 8 controller slots,
  \<^verbatim>\<open>num_controllers\<close> lies between 0 and 8; the registered records are the records of the
  first eight detected gamepads of the directory listing, in its order, so a matching
  device after the eighth is ignored; and every registered record is the record of an
  entry that was opened and of which \<^verbatim>\<open>is_gamepad\<close> holds.
\<close>

theorem scan_controllers_registry:
  fixes dir :: "('w::len word list) dev_node list option"
  assumes "length (controllers a) = 8"
  shows "0 \<le> num_controllers (scan_controllers dir a)
     \<and> num_controllers (scan_controllers dir a) \<le> 8
     \<and> length (controllers (scan_controllers dir a)) = 8
     \<and> registered (scan_controllers dir a) =
         take 8 (map controller_of (filter detected (case dir of None \<Rightarrow> [] | Some es \<Rightarrow> es)))
     \<and> (\<forall>c \<in> set (registered (scan_controllers dir a)).
          \<exists>e \<in> set (case dir of None \<Rightarrow> [] | Some es \<Rightarrow> es).
            \<exists>f dev. node_open e = Some (f, dev) \<and> is_gamepad dev \<and> c = controller_of e)"
proof -
  define es where "es = (case dir of None \<Rightarrow> [] | Some es \<Rightarrow> es)"
  define a0 where "a0 = a\<lparr>num_controllers := 0\<rparr>"
  have sc: "scan_controllers dir a = scan_loop es a0"
    by (cases dir) (simp_all add: scan_controllers_def es_def a0_def)
  have pre: "0 \<le> num_controllers a0" "num_controllers a0 \<le> MAX_CONTROLLERS"
    "length (controllers a0) = 8"
    using assms by (simp_all add: a0_def MAX_CONTROLLERS_def)
  have r0: "registered a0 = []"
    by (simp add: registered_def a0_def)
  note inv = scan_loop_registered [OF pre, of es]
  have reg: "registered (scan_loop es a0) = take 8 (map controller_of (filter detected es))"
    using inv by (simp add: r0)
  have "\<exists>e \<in> set es. \<exists>f dev. node_open e = Some (f, dev) \<and> is_gamepad dev \<and> c = controller_of e"
    if "c \<in> set (registered (scan_loop es a0))" for c
  proof -
    from that have "c \<in> set (map controller_of (filter detected es))"
      unfolding reg by (rule in_set_takeD)
    then obtain e where "e \<in> set es" "detected e" "c = controller_of e"
      by auto
    with detected_is_gamepad [of e] show ?thesis
      by blast
  qed
  with inv reg show ?thesis
    unfolding sc es_def [symmetric] by (simp add: MAX_CONTROLLERS_def)
qed


theorem scan_controllers_registry_witness:
  "length (controllers initial_app) = 8
   \<and> registered (scan_controllers (Some (replicate 9 example_node)) initial_app) =
       replicate 8 (controller_of example_node)
   \<and> num_controllers (scan_controllers (Some (replicate 9 example_node)) initial_app) \<le> 8"
proof -
  have len: "length (controllers initial_app) = 8"
    by (simp add: initial_app_def)
  from scan_controllers_registry [OF len, of "Some (replicate 9 example_node)"] len
  show ?thesis
    by (simp add: example_node_detected)
qed


subsection \<open>The identity tool\<close>

lemma guid_tool_loop_lines:
  "guid_tool_loop es (out, found) =
     (out @ concat (map guid_tool_line (filter detected es)),
      found + int (length (filter detected es)))"
proof (induction es arbitrary: out found)
  case Nil
  show ?case by simp
next
  case (Cons e es)
  show ?case
  proof (cases "detected e")
    case False
    then have "guid_tool_loop (e # es) (out, found) = guid_tool_loop es (out, found)"
      by (auto simp: detected_def Let_def split: option.splits)
    with False Cons.IH show ?thesis by simp
  next
    case True
    then obtain f dev i where
      named: "5 < length (d_name e)" "take 5 (d_name e) = ''event''"
      and op: "node_open e = Some (f, dev)" and gp: "is_gamepad dev" and did: "dev_id dev = Some i"
      by (auto simp: detected_def split: option.splits)
    have line: "guid_tool_line e = build_guid i @ '','' @ read_name 256 ''Unknown'' (dev_name dev)
        @ '','' @ snprintf_buf 512 (''/dev/input/'' @ d_name e) @ [CHR 0x0A]"
      by (cases "dev_name dev")
        (simp_all add: guid_tool_line_def op did read_name_def snprintf_buf_def node_path_def)
    have "guid_tool_loop (e # es) (out, found) =
        guid_tool_loop es (out @ guid_tool_line e, found + 1)"
      using named op gp did by (simp add: Let_def line)
    with True Cons.IH show ?thesis by simp
  qed
qed

text \<open>
  C9, as amended. When the identity tool can open \<^verbatim>\<open>/dev/input\<close>, it exits with
  status 0 and its standard output is one line \<^verbatim>\<open>GUID,Name,Path\<close> for each detected
  gamepad, in directory order, followed by the line \<^verbatim>\<open>No game controllers found.\<close>
  exactly when no gamepad was detected. When it cannot open the directory, it exits
  with status 1 and writes nothing to standard output.
\<close>

theorem guid_tool_output:
  "guid_tool_main dir =
     (case dir of
        None \<Rightarrow> (1, [])
      | Some es \<Rightarrow> (0, guid_tool_report es))"
  by (cases dir) (simp_all add: guid_tool_main_def guid_tool_loop_lines guid_tool_report_def)

theorem guid_tool_output_witness:
  "guid_tool_main (Some [example_node]) =
     (0, ''03000000341200007856000000010000,Pad,/dev/input/event0'' @ [CHR 0x0A])
   \<and> guid_tool_main (Some ([] :: (32 word list) dev_node list)) =
     (0, ''No game controllers found.'' @ [CHR 0x0A])
   \<and> guid_tool_main (None :: (32 word list) dev_node list option) = (1, [])"
proof -
  have l: "guid_tool_line example_node =
      ''03000000341200007856000000010000,Pad,/dev/input/event0'' @ [CHR 0x0A]"
    by (simp add: guid_tool_line_def example_node_def example_pad_def node_path_def
        build_guid_def guid_array_def hex_def)
  from guid_tool_output [of "Some [example_node]"]
    guid_tool_output [of "Some ([] :: (32 word list) dev_node list)"]
    guid_tool_output [of "None :: (32 word list) dev_node list option"]
  show ?thesis
    by (simp add: example_node_detected l guid_tool_report_def)
qed

text \<open>
  C9 as stated fails when \<^verbatim>\<open>/dev/input\<close> cannot be opened: the scan sees no entry, so
  no gamepad is detected, and yet the message is not printed; standard output stays
  empty and the exit status is 1.
\<close>

theorem guid_tool_no_directory:
  "filter detected (scanned (None :: (32 word list) dev_node list option)) = []
   \<and> guid_tool_main (None :: (32 word list) dev_node list option) = (1, [])
   \<and> snd (guid_tool_main (None :: (32 word list) dev_node list option)) \<noteq>
       guid_tool_report (scanned (None :: (32 word list) dev_node list option))"
  by (simp add: guid_tool_main_def scanned_def guid_tool_report_def)

subsection \<open>\<^verbatim>\<open>poll_mapping_input\<close>\<close>

lemma poll_hat_head:
  assumes "hat_event ev"
  shows "poll_mapping_input c (ev # evs) entry = Inr (1, hat_capture ev entry, evs)"
proof -
  from assms have t: "unat (ev_type ev) = EV_ABS"
    and r: "ABS_HAT0X \<le> unat (ev_code ev)" "unat (ev_code ev) \<le> ABS_HAT3Y"
    and v: "ev_value ev \<noteq> 0"
    by (simp_all add: hat_event_def)
  have nk: "unat (ev_type ev) \<noteq> EV_KEY"
    using t by (simp add: EV_ABS_def EV_KEY_def)
  have m: "(if (unat (ev_code ev) - ABS_HAT0X) mod 2 = 0
            then (if ev_value ev < 0 then 8 else 2)
            else (if ev_value ev < 0 then 1 else (4::int))) = direction_mask (hat_direction ev)"
    by (simp add: hat_direction_def even_iff_mod_2_eq_zero)
  show ?thesis
    using t r v nk by (simp add: Let_def m hat_capture_def)
qed

lemma poll_other_head:
  assumes "\<not> hat_event ev"
  shows "poll_mapping_input c (ev # evs) entry = Inl OutOfBounds
    \<or> (\<exists>i. poll_mapping_input c (ev # evs) entry =
          Inr (1, entry\<lparr>mapped_type := MAP_BUTTON, mapped_index := i\<rparr>, evs))
    \<or> (\<exists>i. poll_mapping_input c (ev # evs) entry =
          Inr (1, entry\<lparr>mapped_type := MAP_AXIS, mapped_index := i\<rparr>, evs))
    \<or> poll_mapping_input c (ev # evs) entry = poll_mapping_input c evs entry"
  using assms
  by (auto simp: Let_def hat_event_def arr_read_def split: sum.splits)

lemma direction_mask_cases: "direction_mask d \<in> {1, 2, 4, 8}"
  by (cases d) simp_all

lemma poll_hat_origin:
  assumes "poll_mapping_input c evs entry = Inr (got, m, rest)"
    and "got \<noteq> 0" and "mapped_type m = MAP_HAT"
  shows "\<exists>pre ev. evs = pre @ ev # rest \<and> hat_event ev \<and> m = hat_capture ev entry"
  using assms
proof (induction evs)
  case Nil
  then show ?case by simp
next
  case (Cons ev evs)
  show ?case
  proof (cases "hat_event ev")
    case True
    from poll_hat_head [OF True, of c evs entry] Cons.prems(1)
    have "m = hat_capture ev entry" "rest = evs"
      by simp_all
    with True show ?thesis by blast
  next
    case False
    from poll_other_head [OF False, of c evs entry] Cons.prems
    have "poll_mapping_input c evs entry = Inr (got, m, rest)"
      by auto
    from Cons.IH [OF this Cons.prems(2,3)] obtain pre e where
      "evs = pre @ e # rest" "hat_event e" "m = hat_capture e entry"
      by blast
    then have "ev # evs = (ev # pre) @ e # rest \<and> hat_event e \<and> m = hat_capture e entry"
      by simp
    then show ?thesis by blast
  qed
qed

text \<open>
  C5. A hat event (an absolute-axis event with a code in \<^verbatim>\<open>ABS_HAT0X..ABS_HAT3Y\<close> and a
  value other than 0) at the head of the queue is captured by \<^verbatim>\<open>poll_mapping_input\<close> as
  a hat binding with the mask Left = 8 or Right = 2 for an X code, Up = 1 or Down = 4 for a
  Y code, by the sign of the value. Conversely every hat capture the function returns
  comes from such an event of the queue, with that event's mask, which is one of
  1, 2, 4, 8.
\<close>

theorem hat_capture_direction_mask:
  "(hat_event ev \<longrightarrow>
      poll_mapping_input c (ev # evs) entry = Inr (1, hat_capture ev entry, evs))
   \<and> (poll_mapping_input c evs' entry = Inr (got, m, rest) \<and> got \<noteq> 0 \<and> mapped_type m = MAP_HAT
        \<longrightarrow> (\<exists>pre e. evs' = pre @ e # rest \<and> hat_event e
               \<and> mapped_index m = int ((unat (ev_code e) - ABS_HAT0X) div 2)
               \<and> hat_mask m = direction_mask (hat_direction e))
            \<and> hat_mask m \<in> {1, 2, 4, 8})"
proof (intro conjI impI)
  assume "hat_event ev"
  then show "poll_mapping_input c (ev # evs) entry = Inr (1, hat_capture ev entry, evs)"
    by (rule poll_hat_head)
next
  assume a: "poll_mapping_input c evs' entry = Inr (got, m, rest) \<and> got \<noteq> 0 \<and>
      mapped_type m = MAP_HAT"
  then obtain pre e where pe: "evs' = pre @ e # rest" "hat_event e" "m = hat_capture e entry"
    using poll_hat_origin [of c evs' entry got m rest] by blast
  then show "\<exists>pre e. evs' = pre @ e # rest \<and> hat_event e
       \<and> mapped_index m = int ((unat (ev_code e) - ABS_HAT0X) div 2)
       \<and> hat_mask m = direction_mask (hat_direction e)"
    by (auto simp: hat_capture_def)
  from pe show "hat_mask m \<in> {1, 2, 4, 8}"
    using direction_mask_cases [of "hat_direction e"] by (simp add: hat_capture_def)
qed

theorem hat_capture_direction_mask_witness:
  "hat_event hat_up_event
   \<and> poll_mapping_input zero_controller [hat_up_event] (init_mappings ! 0) =
       Inr (1, (init_mappings ! 0)\<lparr>mapped_type := MAP_HAT, mapped_index := 0, hat_mask := 1\<rparr>, [])"
proof -
  have h: "hat_event hat_up_event"
    by (simp add: hat_event_def hat_up_event_def EV_ABS_def ABS_HAT0X_def ABS_HAT3Y_def)
  have c: "hat_capture hat_up_event e = e\<lparr>mapped_type := MAP_HAT, mapped_index := 0, hat_mask := 1\<rparr>"
    for e
    by (simp add: hat_capture_def hat_direction_def hat_up_event_def ABS_HAT0X_def)
  from hat_capture_direction_mask [of hat_up_event zero_controller "[]" "init_mappings ! 0"] h
  show ?thesis
    by (simp add: c)
qed

subsection \<open>The deflection threshold\<close>

lemma fold_button_step_ranges:
  "axis_min (fold (button_step kb) xs c) = axis_min c
   \<and> axis_max (fold (button_step kb) xs c) = axis_max c
   \<and> axis_initial (fold (button_step kb) xs c) = axis_initial c"
  by (induction xs arbitrary: c) (simp_all add: button_step_def)

lemma axis_step_ranges:
  "axis_min (axis_step info ab i c) =
     (if TEST_BIT i ab \<noteq> 0 then (axis_min c)[i := fst (read_absinfo (info i))] else axis_min c)
   \<and> axis_max (axis_step info ab i c) =
     (if TEST_BIT i ab \<noteq> 0 then (axis_max c)[i := snd (read_absinfo (info i))] else axis_max c)
   \<and> axis_initial (axis_step info ab i c) =
     (if TEST_BIT i ab \<noteq> 0
      then (axis_initial c)[i := wrap32 (fst (read_absinfo (info i)) + snd (read_absinfo (info i))) sdiv 2]
      else axis_initial c)"
  by (simp add: axis_step_def Let_def split: prod.splits)

lemma fold_axis_step_lengths:
  "length (axis_min (fold (axis_step info ab) xs c)) = length (axis_min c)
   \<and> length (axis_max (fold (axis_step info ab) xs c)) = length (axis_max c)
   \<and> length (axis_initial (fold (axis_step info ab) xs c)) = length (axis_initial c)"
  by (induction xs arbitrary: c) (simp_all add: axis_step_ranges)

lemma fold_axis_step_ranges:
  assumes "i \<in> set xs" and "TEST_BIT i ab \<noteq> 0"
    and "i < length (axis_min c)" "i < length (axis_max c)" "i < length (axis_initial c)"
  shows "axis_min (fold (axis_step info ab) xs c) ! i = fst (read_absinfo (info i))
   \<and> axis_max (fold (axis_step info ab) xs c) ! i = snd (read_absinfo (info i))
   \<and> axis_initial (fold (axis_step info ab) xs c) ! i =
       wrap32 (fst (read_absinfo (info i)) + snd (read_absinfo (info i))) sdiv 2"
  using assms(1)
proof (induction xs rule: rev_induct)
  case Nil
  then show ?case by simp
next
  case (snoc x xs)
  let ?c = "fold (axis_step info ab) xs c"
  note len = fold_axis_step_lengths [of info ab xs c]
  show ?case
  proof (cases "x = i")
    case True
    with assms(2-5) len show ?thesis
      by (simp add: axis_step_ranges)
  next
    case False
    with snoc have "i \<in> set xs" by simp
    from snoc.IH [OF this] False show ?thesis
      by (simp add: axis_step_ranges)
  qed
qed

lemma enumerate_axis_ranges:
  fixes d :: "('w::len word list, 'a) evdev_scheme"
  assumes "i < ABS_MAX" and "field_bit i (abs_bits d)"
    and "length (axis_min c) = ABS_MAX" "length (axis_max c) = ABS_MAX"
  shows "axis_min (enumerate_buttons_axes d c) ! i = fst (read_absinfo (abs_info d i))
   \<and> axis_max (enumerate_buttons_axes d c) ! i = snd (read_absinfo (abs_info d i))
   \<and> axis_initial (enumerate_buttons_axes d c) ! i =
       wrap32 (fst (read_absinfo (abs_info d i)) + snd (read_absinfo (abs_info d i))) sdiv 2"
proof -
  define kb where "kb = snd (read_bits (NBITS TYPE('w) KEY_MAX) (key_bits d))"
  define ab where "ab = snd (read_bits (NBITS TYPE('w) ABS_MAX) (abs_bits d))"
  define c0 where "c0 = c\<lparr>num_buttons := 0, num_axes := 0, num_hats := 0,
                 btn_map := replicate KEY_MAX (- 1),
                 abs_map := replicate ABS_MAX (- 1),
                 hat_map := replicate ABS_MAX (- 1),
                 axis_initial := replicate ABS_MAX 0\<rparr>"
  define c2 where "c2 = fold (button_step kb) [BTN_MISC ..< BTN_JOYSTICK]
      (fold (button_step kb) [BTN_JOYSTICK ..< KEY_MAX] c0)"
  have E: "enumerate_buttons_axes d c = fold (axis_step (abs_info d) ab) [0 ..< ABS_MAX] c2"
    by (simp add: enumerate_buttons_axes_def Let_def kb_def ab_def c0_def c2_def)
  have tb: "TEST_BIT i ab \<noteq> 0"
    using TEST_BIT_read_bits [OF assms(1), of "abs_bits d"] assms(2) by (simp add: ab_def)
  have l2: "length (axis_min c2) = ABS_MAX" "length (axis_max c2) = ABS_MAX"
    "length (axis_initial c2) = ABS_MAX"
    using assms(3,4) by (simp_all add: c2_def fold_button_step_ranges c0_def)
  have "i \<in> set [0 ..< ABS_MAX]"
    using assms(1) by simp
  from fold_axis_step_ranges [OF this tb, of c2 "abs_info d"] l2 assms(1)
  show ?thesis
    by (simp add: E)
qed

lemma zero_controller_lengths:
  "length (axis_min zero_controller) = ABS_MAX" "length (axis_max zero_controller) = ABS_MAX"
  by (simp_all add: zero_controller_def)

lemma example_controller_axis:
  "abs_map (controller_of example_node) ! 0 = 0
   \<and> axis_min (controller_of example_node) ! 0 = 0
   \<and> axis_max (controller_of example_node) ! 0 = 255
   \<and> axis_initial (controller_of example_node) ! 0 = 127"
proof -
  define c where "c = zero_controller\<lparr>fd := 3, path := node_path example_node,
      ctrl_id := \<lparr>bustype = 0x0003, vendor = 0x1234, product = 0x5678, version = 0x0100\<rparr>,
      name := ''Pad'',
      guid := build_guid \<lparr>bustype = 0x0003, vendor = 0x1234, product = 0x5678, version = 0x0100\<rparr>\<rparr>"
  have co: "controller_of example_node = enumerate_buttons_axes example_pad c"
    by (simp add: controller_of_def example_node_def example_pad_def c_def)
  have fb: "field_bit 0 (abs_bits example_pad)"
    by (simp add: field_bit_def example_pad_def)
  have lt: "0 < ABS_MAX"
    by (simp add: ABS_MAX_def)
  have len: "length (axis_min c) = ABS_MAX" "length (axis_max c) = ABS_MAX"
    by (simp_all add: c_def zero_controller_def)
  have info: "read_absinfo (abs_info example_pad 0) = (0, 255)"
    by (simp add: read_absinfo_def example_pad_def)
  have pa: "plain_axis example_pad 0"
    using fb by (simp add: plain_axis_def in_hat_range_def ABS_HAT0X_def)
  have "abs_map (enumerate_buttons_axes example_pad c) ! 0 = axis_index_spec example_pad 0"
    using enumerate_axes [of example_pad c] lt by simp
  also have "\<dots> = 0"
    using pa lt by (simp add: axis_index_spec_def count_set_def)
  finally have am: "abs_map (controller_of example_node) ! 0 = 0"
    by (simp add: co)
  from enumerate_axis_ranges [OF lt fb len] am show ?thesis
    by (simp add: co info wrap32_def)
qed

lemma axis_thresh_two_fifths_of_range:
  assumes "axis_min c ! k = mn" and "axis_max c ! k = mx"
    and "0 < mx - mn" and "mx - mn < 2 ^ 30"
  shows "axis_thresh c k = (mx - mn) * 2 div 5"
proof -
  have r: "axis_range c k = mx - mn"
    using assms by (simp add: axis_range_def wrap32_def)
  have "wrap32 ((mx - mn) * 2) = (mx - mn) * 2"
    using assms(3,4) by (simp add: wrap32_def)
  moreover have "((mx - mn) * 2) sdiv 5 = (mx - mn) * 2 div 5"
    using assms(3) by (simp add: signed_divide_int_def)
  ultimately show ?thesis
    using assms(3) by (simp add: axis_thresh_def r)
qed

text \<open>
  C2, at a concrete input. On the controller record the scan builds for the example
  device (X axis with range 0..255, centre 127) the threshold the code computes is
  \<open>255 * 2 / 5 = 102\<close>, two fifths of the whole range and not of the half-range. The
  sample 187 is 60 away from the centre: a deflection by the rule of the specification
  (40% of the half-range 127.5 is 51), but \<^verbatim>\<open>poll_mapping_input\<close> captures nothing.
\<close>

theorem axis_threshold_failing_input:
  "axis_thresh (controller_of example_node) 0 = 102
   \<and> axis_delta (controller_of example_node) 0 187 = 60
   \<and> spec_deflected 0 255 127 187
   \<and> poll_mapping_input (controller_of example_node) [axis_x_event] entry = Inr (0, entry, [])"
proof -
  note ex = example_controller_axis
  have t: "axis_thresh (controller_of example_node) 0 = 102"
    using axis_thresh_two_fifths_of_range [of "controller_of example_node" 0 0 255] ex
    by simp
  have d: "axis_delta (controller_of example_node) 0 187 = 60"
    using ex by (simp add: axis_delta_def wrap32_def)
  have s: "spec_deflected 0 255 127 187"
    by (simp add: spec_deflected_def)
  have p: "poll_mapping_input (controller_of example_node) [axis_x_event] entry =
      Inr (0, entry, [])"
    using ex t d
    by (simp add: axis_x_event_def Let_def arr_read_def EV_KEY_def EV_ABS_def ABS_HAT0X_def
        ABS_MAX_def wrap32_def)
  from t d s p show ?thesis by simp
qed

subsection \<open>Redoing one channel\<close>

lemma review_redo_selected_row:
  assumes "0 \<le> review_sel a" and "review_sel a < 10"
  shows "review_redo_selected a =
     a\<lparr>redo_single := review_sel a, cur_map := review_sel a,
       mappings := (mappings a)[nat (review_sel a) :=
          (mappings a ! nat (review_sel a))\<lparr>mapped_type := MAP_NONE\<rparr>],
       state := STATE_MAPPING\<rparr>"
  using assms by (simp add: review_redo_selected_def NUM_MAPPINGS_def Let_def)

lemma read_nav_input_got:
  "read_nav_input a evs tevs = Inr (n, g) \<Longrightarrow> g = nav_nonzero n"
  by (auto simp: read_nav_input_def Let_def split: if_splits sum.splits prod.splits)

lemma key_codes:
  "KEY_ESC = 1" "KEY_1 = 2" "KEY_2 = 3" "KEY_3 = 4" "KEY_4 = 5" "KEY_Q = 16"
  "KEY_ENTER = 28" "KEY_SPACE = 57" "KEY_UP = 103" "KEY_RIGHT = 106" "KEY_DOWN = 108"
  by (simp_all add: KEY_ESC_def KEY_1_def KEY_2_def KEY_3_def KEY_4_def KEY_Q_def
      KEY_ENTER_def KEY_SPACE_def KEY_UP_def KEY_RIGHT_def KEY_DOWN_def)

lemmas review_simps =
  key_codes Let_def REVIEW_TOTAL_ITEMS_def NUM_MAPPINGS_def review_confirm_def

lemma update_review_key_confirm:
  assumes nav: "read_nav_input a nevs tevs = Inr (n, g)"
    and key: "read_keyboard kbd = 28 \<or> read_keyboard kbd = 57 \<or> read_keyboard kbd = 106"
    and sel: "0 \<le> review_sel a"
    and row: "max 0 (review_sel a + dy n) < 10"
  shows "update_review fs nevs tevs kbd a =
    Inr (review_redo_selected (a\<lparr>review_sel := max 0 (review_sel a + dy n)\<rparr>))"
proof -
  have "update_review fs nevs tevs kbd a =
    Inr (review_redo_selected (a\<lparr>review_sel := max 0 (review_sel a + dy n)\<rparr>))"
    if k: "read_keyboard kbd = c" and c: "c = 28 \<or> c = 57 \<or> c = 106" for c
  proof (cases "dy n = 0")
    case True
    with sel row c show ?thesis
      unfolding update_review_def nav k by (elim disjE) (simp_all add: review_simps)
  next
    case False
    show ?thesis
    proof (cases "review_sel a + dy n < 0")
      case True
      with False sel row c show ?thesis
        unfolding update_review_def nav k by (elim disjE) (simp_all add: review_simps)
    next
      case neg: False
      with False sel row c show ?thesis
        unfolding update_review_def nav k by (elim disjE) (simp_all add: review_simps)
    qed
  qed
  with key show ?thesis
    by blast
qed

lemma update_review_pad_confirm:
  assumes nav: "read_nav_input a nevs tevs = Inr (n, g)"
    and key: "read_keyboard kbd \<notin> {2, 3, 4, 5, 16, 1, 103, 108}"
    and sig: "dx n > 0 \<or> btn_a n \<noteq> 0"
    and sel: "0 \<le> review_sel a"
    and row: "max 0 (review_sel a + dy n) < 10"
  shows "update_review fs nevs tevs kbd a =
    Inr (review_redo_selected (a\<lparr>review_sel := max 0 (review_sel a + dy n)\<rparr>))"
proof -
  have g: "g \<noteq> 0"
    using read_nav_input_got [OF nav] sig by (auto simp: nav_nonzero_def)
  have "update_review fs nevs tevs kbd a =
    Inr (review_redo_selected (a\<lparr>review_sel := max 0 (review_sel a + dy n)\<rparr>))"
    if s: "dx n > 0 \<or> \<not> dx n > 0 \<and> btn_a n \<noteq> 0"
  proof (cases "dy n = 0")
    case True
    with sel row key g s show ?thesis
      unfolding update_review_def nav by (elim disjE) (simp_all add: review_simps)
  next
    case False
    show ?thesis
    proof (cases "review_sel a + dy n < 0")
      case True
      with False sel row key g s show ?thesis
        unfolding update_review_def nav by (elim disjE) (simp_all add: review_simps)
    next
      case neg: False
      with False sel row key g s show ?thesis
        unfolding update_review_def nav by (elim disjE) (simp_all add: review_simps)
    qed
  qed
  with sig show ?thesis
    by blast
qed

lemma update_review_key_vertical:
  assumes nav: "read_nav_input a nevs tevs = Inr (n, g)"
    and key: "read_keyboard kbd = 103 \<and> v = - 1 \<or> read_keyboard kbd = 108 \<and> v = 1"
    and sig: "dx n > 0 \<or> btn_a n \<noteq> 0"
    and sel: "0 \<le> review_sel a"
    and row: "max 0 (review_sel a + v) < 10"
  shows "update_review fs nevs tevs kbd a =
    Inr (review_redo_selected (a\<lparr>review_sel := max 0 (review_sel a + v)\<rparr>))"
proof -
  have "update_review fs nevs tevs kbd a =
    Inr (review_redo_selected (a\<lparr>review_sel := max 0 (review_sel a + v)\<rparr>))"
    if k: "read_keyboard kbd = c" and c: "c = 103 \<and> v = - 1 \<or> c = 108 \<and> v = 1"
      and s: "dx n > 0 \<or> \<not> dx n > 0 \<and> btn_a n \<noteq> 0" for c
  proof (cases "review_sel a + v < 0")
    case True
    with sel row c s show ?thesis
      unfolding update_review_def nav k by (elim disjE conjE) (simp_all add: review_simps)
  next
    case False
    with sel row c s show ?thesis
      unfolding update_review_def nav k by (elim disjE conjE) (simp_all add: review_simps)
  qed
  with key sig show ?thesis
    by blast
qed

lemma update_review_redo:
  fixes a :: app and kbd :: "input_event list list" and n :: nav
  defines "key \<equiv> read_keyboard kbd"
  defines "v \<equiv> (if key = KEY_DOWN then 1 else if key = KEY_UP then - 1 else dy n)"
  defines "k \<equiv> max 0 (review_sel a + v)"
  assumes nav: "read_nav_input a nevs tevs = Inr (n, g)"
    and cmd: "key \<notin> {KEY_1, KEY_2, KEY_3, KEY_4, KEY_Q, KEY_ESC}"
    and sig: "dx n > 0 \<or> key = KEY_RIGHT \<or> btn_a n \<noteq> 0 \<or> key = KEY_ENTER \<or> key = KEY_SPACE"
    and sel: "0 \<le> review_sel a"
    and row: "k < 10"
  shows "update_review fs nevs tevs kbd a = Inr (review_redo_selected (a\<lparr>review_sel := k\<rparr>))"
proof -
  consider (vertical) "key = 103 \<or> key = 108"
    | (confirm) "key = 28 \<or> key = 57 \<or> key = 106"
    | (other) "key \<notin> {103, 108, 28, 57, 106}"
    by blast
  then show ?thesis
  proof cases
    case vertical
    then have kv: "read_keyboard kbd = 103 \<and> v = - 1 \<or> read_keyboard kbd = 108 \<and> v = 1"
      by (auto simp: v_def key_def key_codes)
    from vertical sig have pad: "dx n > 0 \<or> btn_a n \<noteq> 0"
      by (auto simp: key_codes)
    from update_review_key_vertical [OF nav kv pad sel row [unfolded k_def]]
    show ?thesis
      by (simp add: k_def)
  next
    case confirm
    then have v: "v = dy n"
      by (auto simp: v_def key_codes)
    from update_review_key_confirm [OF nav confirm [unfolded key_def] sel row [unfolded k_def v]]
    show ?thesis
      by (simp add: k_def v)
  next
    case other
    then have v: "v = dy n"
      by (auto simp: v_def key_codes)
    from other cmd have ks: "read_keyboard kbd \<notin> {2, 3, 4, 5, 16, 1, 103, 108}"
      by (simp add: key_def key_codes)
    from other sig have pad: "dx n > 0 \<or> btn_a n \<noteq> 0"
      by (auto simp: key_codes)
    from update_review_pad_confirm [OF nav ks pad sel row [unfolded k_def v]]
    show ?thesis
      by (simp add: k_def v)
  qed
qed

lemma update_mapping_redo:
  assumes len: "length (mappings a) = 10"
    and row: "0 \<le> review_sel a" "review_sel a < 10"
    and ctl: "0 \<le> sel_ctrl a" "sel_ctrl a < 8"
    and cap: "poll_mapping_input (controllers a ! nat (sel_ctrl a)) evs
        ((mappings a ! nat (review_sel a))\<lparr>mapped_type := MAP_NONE\<rparr>) = Inr (got, m, rest)"
    and got: "got \<noteq> 0"
  shows "update_mapping evs (review_redo_selected a) =
     Inr (a\<lparr>redo_single := - 1, cur_map := review_sel a,
            mappings := (mappings a)[nat (review_sel a) := m],
            state := STATE_REVIEW\<rparr>)"
proof -
  have k: "nat (review_sel a) < length (mappings a)"
    using len row by simp
  show ?thesis
    using row ctl k cap got
    by (simp add: review_redo_selected_row [OF row] update_mapping_def NUM_MAPPINGS_def
        MAX_CONTROLLERS_def)
qed

lemma update_mapping_idle:
  assumes "length (mappings a) = 10"
    and "0 \<le> cur_map a" "cur_map a < 10"
    and "0 \<le> sel_ctrl a" "sel_ctrl a < 8"
    and "poll_mapping_input (controllers a ! nat (sel_ctrl a)) evs (mappings a ! nat (cur_map a)) =
        Inr (0, m, rest)"
  shows "update_mapping evs a = Inr (a\<lparr>mappings := (mappings a)[nat (cur_map a) := m]\<rparr>)"
  using assms by (simp add: update_mapping_def NUM_MAPPINGS_def MAX_CONTROLLERS_def)

lemma poll_no_capture_entry:
  "poll_mapping_input c evs entry = Inr (0, m, rest) \<Longrightarrow> m = entry \<and> rest = []"
proof (induction evs)
  case Nil
  then show ?case by simp
next
  case (Cons ev evs)
  show ?case
  proof (cases "hat_event ev")
    case True
    from poll_hat_head [OF True, of c evs entry] Cons.prems show ?thesis
      by simp
  next
    case False
    from poll_other_head [OF False, of c evs entry] Cons.prems
    have "poll_mapping_input c evs entry = Inr (0, m, rest)"
      by auto
    then show ?thesis by (rule Cons.IH)
  qed
qed

text \<open>
  C6. In REVIEW a right or confirm signal, from the controller (the horizontal channel
  pushed right, or a confirm button) or from the keyboard (Right, Enter or Space), on
  the row of channel \<open>k\<close> makes \<^verbatim>\<open>update_review\<close> redo that channel: the state becomes
  MAPPING, the redo flag and the current channel are \<open>k\<close>, and the binding of channel
  \<open>k\<close> is cleared while the other bindings stay. The row \<open>k\<close> is the one the cursor is
  on when the signal is served: a vertical movement \<open>v\<close> read in the same poll (the Up
  or Down key, else the controller's vertical channel) moves the cursor first, and not
  above the first row. The key read in the poll, if any, is not one of the command
  keys 1, 2, 3, 4, Q and Esc, which \<^verbatim>\<open>update_review\<close> serves before any signal. The next
  successful capture by \<^verbatim>\<open>update_mapping\<close> stores the captured binding in channel
  \<open>k\<close>, clears the redo flag and returns to REVIEW; the entries of the other nine
  channels, and so their serialized codes, are what they were, as are the controllers,
  the selected controller and the save path.
\<close>

theorem redo_single_channel:
  fixes a :: app and kbd :: "input_event list list" and n :: nav
  defines "key \<equiv> read_keyboard kbd"
  defines "v \<equiv> (if key = KEY_DOWN then 1 else if key = KEY_UP then - 1 else dy n)"
  defines "k \<equiv> max 0 (review_sel a + v)"
  assumes rev: "state a = STATE_REVIEW"
    and len: "length (mappings a) = 10"
    and sel: "0 \<le> review_sel a"
    and row: "k < 10"
    and ctl: "0 \<le> sel_ctrl a" "sel_ctrl a < 8"
    and nav: "read_nav_input a nevs tevs = Inr (n, g)"
    and cmd: "key \<notin> {KEY_1, KEY_2, KEY_3, KEY_4, KEY_Q, KEY_ESC}"
    and sig: "dx n > 0 \<or> key = KEY_RIGHT \<or> btn_a n \<noteq> 0 \<or> key = KEY_ENTER \<or> key = KEY_SPACE"
    and cap: "poll_mapping_input (controllers a ! nat (sel_ctrl a)) evs
        ((mappings a ! nat k)\<lparr>mapped_type := MAP_NONE\<rparr>) = Inr (got, m, rest)"
    and got: "got \<noteq> 0"
  shows "\<exists>a1 a2.
      update_review fs nevs tevs kbd a = Inr a1
    \<and> state a1 = STATE_MAPPING \<and> redo_single a1 = k \<and> cur_map a1 = k
    \<and> mapped_type (mappings a1 ! nat k) = MAP_NONE
    \<and> mappings a1 = (mappings a)[nat k := (mappings a ! nat k)\<lparr>mapped_type := MAP_NONE\<rparr>]
    \<and> update_mapping evs a1 = Inr a2
    \<and> state a2 = STATE_REVIEW \<and> redo_single a2 = - 1
    \<and> mappings a2 = (mappings a)[nat k := m]
    \<and> (\<forall>j < 10. j \<noteq> nat k \<longrightarrow>
          mappings a2 ! j = mappings a ! j
          \<and> channel_code (mappings a2 ! j) = channel_code (mappings a ! j))
    \<and> controllers a2 = controllers a \<and> sel_ctrl a2 = sel_ctrl a
    \<and> review_sel a2 = k \<and> save_path a2 = save_path a"
proof -
  define b where "b = a\<lparr>review_sel := k\<rparr>"
  define a1 where "a1 = review_redo_selected b"
  define a2 where "a2 = b\<lparr>redo_single := - 1, cur_map := k,
            mappings := (mappings a)[nat k := m], state := STATE_REVIEW\<rparr>"
  have k0: "0 \<le> k"
    by (simp add: k_def)
  have brow: "0 \<le> review_sel b" "review_sel b < 10"
    using k0 row by (simp_all add: b_def)
  have bf: "mappings b = mappings a" "controllers b = controllers a" "sel_ctrl b = sel_ctrl a"
    "review_sel b = k" "save_path b = save_path a"
    by (simp_all add: b_def)
  have kl: "nat k < length (mappings a)"
    using len row k0 by simp
  have r: "update_review fs nevs tevs kbd a = Inr a1"
    unfolding a1_def b_def k_def v_def key_def
    by (rule update_review_redo [OF nav cmd [unfolded key_def] sig [unfolded key_def] sel
          row [unfolded k_def v_def key_def]])
  have s1: "state a1 = STATE_MAPPING" "redo_single a1 = k" "cur_map a1 = k"
    "mapped_type (mappings a1 ! nat k) = MAP_NONE"
    "mappings a1 = (mappings a)[nat k := (mappings a ! nat k)\<lparr>mapped_type := MAP_NONE\<rparr>]"
    using kl by (simp_all add: a1_def review_redo_selected_row [OF brow] bf)
  have u: "update_mapping evs a1 = Inr a2"
    unfolding a1_def a2_def
    using update_mapping_redo [of b evs got m rest] len brow ctl cap got
    by (simp add: bf)
  have s2: "state a2 = STATE_REVIEW" "redo_single a2 = - 1"
    "mappings a2 = (mappings a)[nat k := m]"
    "controllers a2 = controllers a" "sel_ctrl a2 = sel_ctrl a"
    "review_sel a2 = k" "save_path a2 = save_path a"
    by (simp_all add: a2_def bf)
  have others: "\<forall>j < 10. j \<noteq> nat k \<longrightarrow>
          mappings a2 ! j = mappings a ! j
          \<and> channel_code (mappings a2 ! j) = channel_code (mappings a ! j)"
    by (simp add: s2(3))
  from r s1 u s2 others show ?thesis
    by blast
qed

lemma button_pad_keys:
  "field_bit 288 (key_bits button_pad)" "field_bit 289 (key_bits button_pad)"
  by (simp_all add: field_bit_def button_pad_def nth_append)

lemma button_controller_map:
  "btn_map (controller_of button_node) ! 288 = 0 \<and> btn_map (controller_of button_node) ! 289 = 1"
proof -
  obtain c where co: "controller_of button_node = enumerate_buttons_axes button_pad c"
    by (simp add: controller_of_def button_node_def button_pad_def)
  have "count_set (\<lambda>j. field_bit j (key_bits button_pad)) 288 (Suc 288) = 1"
    using button_pad_keys(1) by (simp add: count_set_Suc count_set_def)
  then have c1: "count_set (\<lambda>j. field_bit j (key_bits button_pad)) 288 289 = 1"
    by simp
  have "button_index_spec button_pad 288 = 0" "button_index_spec button_pad 289 = 1"
    using button_pad_keys c1
    by (simp_all add: button_index_spec_def BTN_JOYSTICK_def KEY_MAX_def count_set_def)
  with enumerate_buttons [of button_pad c] show ?thesis
    by (simp add: co KEY_MAX_def)
qed

lemma review_app_fields:
  "state review_app = STATE_REVIEW" "length (mappings review_app) = 10"
  "review_sel review_app = 0" "sel_ctrl review_app = 0"
  "controllers review_app ! 0 = controller_of button_node"
  "mappings review_app ! 0 = (init_mappings ! 0)\<lparr>mapped_type := MAP_BUTTON, mapped_index := 0\<rparr>"
  by (simp_all add: review_app_def initial_app_def init_mappings_def bind_button_def)

lemma review_app_nav:
  "read_nav_input review_app [press_trigger] [] =
     Inr (\<lparr>dy = 0, dx = 0, btn_a = 1, btn_b = 0, btn_start = 0\<rparr>, 1)"
  using button_controller_map
  by (simp add: read_nav_input_def review_app_def initial_app_def init_mappings_def
      bind_button_def new_entry_def MAX_CONTROLLERS_def nav_step_def press_trigger_def
      EV_KEY_def arr_read_def KEY_MAX_def is_button_def read_thec64_nav_def nav_nonzero_def
      Let_def)

lemma review_app_capture:
  "poll_mapping_input (controller_of button_node) [press_thumb] e =
     Inr (1, e\<lparr>mapped_type := MAP_BUTTON, mapped_index := 1\<rparr>, [])"
  using button_controller_map
  by (simp add: press_thumb_def EV_KEY_def arr_read_def KEY_MAX_def Let_def)

lemma review_app_idle:
  "read_nav_input review_app [] [] =
     Inr (\<lparr>dy = 0, dx = 0, btn_a = 0, btn_b = 0, btn_start = 0\<rparr>, 0)"
  by (simp add: read_nav_input_def review_app_def initial_app_def
      MAX_CONTROLLERS_def read_thec64_nav_def nav_nonzero_def Let_def)

lemma press_enter_key: "read_keyboard [[press_enter]] = 28"
  by (simp add: press_enter_def EV_KEY_def)

theorem redo_single_channel_witness:
  "(\<exists>a1 a2.
      update_review empty_fs [press_trigger] [] [] review_app = Inr a1
    \<and> state a1 = STATE_MAPPING
    \<and> update_mapping [press_thumb] a1 = Inr a2
    \<and> state a2 = STATE_REVIEW
    \<and> mappings a2 = (mappings review_app)[0 :=
         (init_mappings ! 0)\<lparr>mapped_type := MAP_BUTTON, mapped_index := 1\<rparr>])
   \<and> (\<exists>a1 a2.
      update_review empty_fs [] [] [[press_enter]] review_app = Inr a1
    \<and> state a1 = STATE_MAPPING
    \<and> update_mapping [press_thumb] a1 = Inr a2
    \<and> state a2 = STATE_REVIEW
    \<and> mappings a2 = (mappings review_app)[0 :=
         (init_mappings ! 0)\<lparr>mapped_type := MAP_BUTTON, mapped_index := 1\<rparr>])"
proof -
  note f = review_app_fields
  have cap: "poll_mapping_input (controllers review_app ! 0) [press_thumb]
        ((mappings review_app ! 0)\<lparr>mapped_type := MAP_NONE\<rparr>) =
      Inr (1, (init_mappings ! 0)\<lparr>mapped_type := MAP_BUTTON, mapped_index := 1\<rparr>, [])"
    by (simp only: f review_app_capture) simp
  have pad: "\<exists>a1 a2.
      update_review empty_fs [press_trigger] [] [] review_app = Inr a1
    \<and> state a1 = STATE_MAPPING
    \<and> update_mapping [press_thumb] a1 = Inr a2
    \<and> state a2 = STATE_REVIEW
    \<and> mappings a2 = (mappings review_app)[0 :=
         (init_mappings ! 0)\<lparr>mapped_type := MAP_BUTTON, mapped_index := 1\<rparr>]"
    using redo_single_channel [where a = review_app and kbd = "[]" and nevs = "[press_trigger]"
        and tevs = "[]" and evs = "[press_thumb]" and fs = empty_fs, OF f(1) f(2) _ _ _ _ review_app_nav]
      cap
    by (simp add: f key_codes) blast
  have kbd: "\<exists>a1 a2.
      update_review empty_fs [] [] [[press_enter]] review_app = Inr a1
    \<and> state a1 = STATE_MAPPING
    \<and> update_mapping [press_thumb] a1 = Inr a2
    \<and> state a2 = STATE_REVIEW
    \<and> mappings a2 = (mappings review_app)[0 :=
         (init_mappings ! 0)\<lparr>mapped_type := MAP_BUTTON, mapped_index := 1\<rparr>]"
    using redo_single_channel [where a = review_app and kbd = "[[press_enter]]" and nevs = "[]"
        and tevs = "[]" and evs = "[press_thumb]" and fs = empty_fs, OF f(1) f(2) _ _ _ _ review_app_idle, unfolded press_enter_key]
      cap
    by (simp add: f key_codes) blast
  from pad kbd show ?thesis
    by (rule conjI)
qed

subsection \<open>\<^verbatim>\<open>build_mapping_string\<close>\<close>

lemma buf_print_all_fits:
  assumes "0 \<le> pos" and "nat pos \<le> length buf" and "ss \<noteq> []"
    and "nat pos + length (concat ss) < sz"
  shows "buf_print_all sz ss (buf, pos) =
     Inr (take (nat pos) buf @ concat ss, pos + int (length (concat ss)))"
  using assms
proof (induction ss arbitrary: buf pos)
  case Nil
  then show ?case by simp
next
  case (Cons s ss)
  let ?buf = "take (nat pos) buf @ s"
  let ?pos = "pos + int (length s)"
  have fit: "length s \<le> sz - nat pos - 1"
    using Cons.prems(4) by simp
  have lt: "pos < int sz"
    using Cons.prems(1,4) by simp
  have one: "buf_printf sz s (buf, pos) = Inr (?buf, ?pos)"
    using lt fit by (simp add: buf_printf_def)
  show ?case
  proof (cases "ss = []")
    case True
    with one show ?thesis by simp
  next
    case False
    have p: "0 \<le> ?pos" "nat ?pos \<le> length ?buf"
      using Cons.prems(1,2) by (simp_all add: nat_add_distrib)
    have n: "nat ?pos + length (concat ss) < sz"
      using Cons.prems(1,4) by (simp add: nat_add_distrib)
    have eq: "take (nat ?pos) ?buf = ?buf"
      using Cons.prems(1,2) by (simp add: nat_add_distrib)
    from Cons.IH [OF p False n]
    have "buf_print_all sz ss (?buf, ?pos) =
        Inr (?buf @ concat ss, ?pos + int (length (concat ss)))"
      unfolding eq .
    with one show ?thesis
      by simp
  qed
qed

lemma concat_entry_pieces:
  "concat (entry_pieces m) = gcdb_name m @ '':'' @ channel_code m @ '',''"
  by (cases "mapped_type m") (simp_all add: entry_pieces_def channel_code_def)

lemma concat_pieces_line:
  "concat ([g @ '','' @ nm @ '',''] @ concat (map entry_pieces ms) @ [''platform:Linux,'']) =
     mapping_line g nm ms"
proof -
  have "concat (concat (map entry_pieces ms)) =
      concat (map (\<lambda>m. gcdb_name m @ '':'' @ channel_code m @ '','') ms)"
    by (induction ms) (simp_all add: concat_entry_pieces)
  then show ?thesis
    by (simp add: mapping_line_def)
qed

lemma build_mapping_string_fits:
  assumes "0 \<le> sel_ctrl a" and "sel_ctrl a < 8" and "length (mappings a) = 10"
    and "length (mapping_line (guid (controllers a ! nat (sel_ctrl a)))
           (name (controllers a ! nat (sel_ctrl a))) (mappings a)) < sz"
  shows "build_mapping_string a out sz =
     Inr (mapping_line (guid (controllers a ! nat (sel_ctrl a)))
            (name (controllers a ! nat (sel_ctrl a))) (mappings a))"
proof -
  define c where "c = controllers a ! nat (sel_ctrl a)"
  define pieces where "pieces = [guid c @ '','' @ name c @ '',''] @
      concat (map entry_pieces (mappings a)) @ [''platform:Linux,'']"
  have cp: "concat pieces = mapping_line (guid c) (name c) (mappings a)"
    unfolding pieces_def by (rule concat_pieces_line)
  have ne: "pieces \<noteq> []"
    by (simp add: pieces_def)
  have "buf_print_all sz pieces (out, 0) =
      Inr (take (nat 0) out @ concat pieces, 0 + int (length (concat pieces)))"
    using assms(4) by (intro buf_print_all_fits ne) (simp_all add: cp c_def)
  then have "buf_print_all sz pieces (out, 0) =
      Inr (mapping_line (guid c) (name c) (mappings a), int (length (concat pieces)))"
    by (simp add: cp)
  moreover have tk: "take (nat NUM_MAPPINGS) (mappings a) = mappings a"
    using assms(3) by (simp add: NUM_MAPPINGS_def)
  have ok: "(sel_ctrl a < 0 \<or> sel_ctrl a \<ge> MAX_CONTROLLERS) = False"
    using assms(1,2) by (simp add: MAX_CONTROLLERS_def)
  have "build_mapping_string a out sz =
      (case buf_print_all sz pieces (out, 0) of Inl err \<Rightarrow> Inl err | Inr (buf, pos) \<Rightarrow> Inr buf)"
    unfolding build_mapping_string_def Let_def pieces_def c_def
    by (simp only: tk ok if_False)
  ultimately show ?thesis
    by (simp add: c_def)
qed

lemma dec_digits_length: "0 < k \<Longrightarrow> n < 10 ^ k \<Longrightarrow> length (dec_digits n) \<le> k"
proof (induction k arbitrary: n)
  case 0
  then show ?case by simp
next
  case (Suc k)
  show ?case
  proof (cases "n < 10")
    case True
    then show ?thesis by (simp add: dec_digits.simps [of n])
  next
    case False
    then have k: "0 < k"
      using Suc.prems(2) by (cases k) simp_all
    have "n div 10 < 10 ^ k"
      using Suc.prems(2) by (simp add: less_mult_imp_div_less mult.commute)
    from Suc.IH [OF k this] False show ?thesis
      by (simp add: dec_digits.simps [of n])
  qed
qed

lemma print_int_length:
  assumes "- (2 ^ 31) \<le> i" and "i < 2 ^ 31"
  shows "length (print_int i) \<le> 11"
proof (cases "i < 0")
  case True
  then have "nat (- i) < 10 ^ 10"
    using assms(1) by simp
  then have "length (dec_digits (nat (- i))) \<le> 10"
    by (intro dec_digits_length) simp_all
  with True show ?thesis by (simp add: print_int_def)
next
  case False
  then have "nat i < 10 ^ 10"
    using assms(2) by simp
  then have "length (dec_digits (nat i)) \<le> 10"
    by (intro dec_digits_length) simp_all
  with False show ?thesis by (simp add: print_int_def)
qed


lemma channel_code_length:
  assumes "int32 (mapped_index m)" and "int32 (hat_mask m)"
  shows "length (channel_code m) \<le> 24"
proof -
  have "length (print_int (mapped_index m)) \<le> 11" "length (print_int (hat_mask m)) \<le> 11"
    using assms by (simp_all add: int32_def print_int_length)
  then show ?thesis
    by (cases "mapped_type m") (simp_all add: channel_code_def)
qed

lemma entries_length:
  assumes "\<forall>m \<in> set ms. int32 (mapped_index m) \<and> int32 (hat_mask m)"
  shows "length (concat (map (\<lambda>m. gcdb_name m @ '':'' @ channel_code m @ '','') ms)) \<le>
     sum_list (map length (map gcdb_name ms)) + 26 * length ms"
  using assms
proof (induction ms)
  case Nil
  show ?case by simp
next
  case (Cons m ms)
  then have "length (channel_code m) \<le> 24"
    by (simp add: channel_code_length)
  with Cons show ?case
    by simp
qed

lemma init_names_length: "sum_list (map length (map gcdb_name init_mappings)) = 46"
  by (simp add: init_mappings_def new_entry_def)

lemma mapping_line_length:
  assumes "map gcdb_name ms = map gcdb_name init_mappings"
    and "length g \<le> 32" and "length nm \<le> 255"
    and "\<forall>m \<in> set ms. int32 (mapped_index m) \<and> int32 (hat_mask m)"
  shows "length (mapping_line g nm ms) < 1024"
proof -
  have "length ms = length (map gcdb_name init_mappings)"
    using assms(1) by (metis length_map)
  then have l: "length ms = 10"
    by (simp add: init_mappings_def)
  have e: "length (concat (map (\<lambda>m. gcdb_name m @ '':'' @ channel_code m @ '','') ms)) \<le>
      sum_list (map length (map gcdb_name ms)) + 26 * length ms"
    by (rule entries_length [OF assms(4)])
  have "sum_list (map length (map gcdb_name ms)) = 46"
    unfolding assms(1) by (rule init_names_length)
  with e l
  have "length (concat (map (\<lambda>m. gcdb_name m @ '':'' @ channel_code m @ '','') ms)) \<le> 46 + 260"
    by simp
  with assms(2,3) show ?thesis
    by (simp add: mapping_line_def)
qed

text \<open>
  C3. For the ten slots with their channel names, any bindings (32-bit indices and masks)
  and any controller identity (a GUID of at most 32 and a name of at most 255 characters,
  the sizes of the record's buffers), \<^verbatim>\<open>build_mapping_string\<close> with the 1024-byte buffer
  of the application yields exactly \<^verbatim>\<open>GUID,Name,\<close> followed by \<^verbatim>\<open>channel:code,\<close> for each
  slot in order and \<^verbatim>\<open>platform:Linux,\<close>, where the code is \<^verbatim>\<open>b<index>\<close>, \<^verbatim>\<open>a<index>\<close>,
  \<^verbatim>\<open>h<index>.<mask>\<close> or empty. The result does not depend on what the buffer held
  before, so a second call gives the same bytes.
\<close>

theorem build_mapping_string_line:
  assumes "0 \<le> sel_ctrl a" and "sel_ctrl a < 8"
    and "map gcdb_name (mappings a) = map gcdb_name init_mappings"
    and "length (guid (controllers a ! nat (sel_ctrl a))) \<le> 32"
    and "length (name (controllers a ! nat (sel_ctrl a))) \<le> 255"
    and "\<forall>m \<in> set (mappings a). int32 (mapped_index m) \<and> int32 (hat_mask m)"
  shows "build_mapping_string a out 1024 =
       Inr (mapping_line (guid (controllers a ! nat (sel_ctrl a)))
              (name (controllers a ! nat (sel_ctrl a))) (mappings a))
     \<and> build_mapping_string a out 1024 = build_mapping_string a out' 1024"
proof -
  have "length (mappings a) = length (map gcdb_name init_mappings)"
    using assms(3) by (metis length_map)
  then have l: "length (mappings a) = 10"
    by (simp add: init_mappings_def)
  note fits = mapping_line_length [OF assms(3) assms(4) assms(5) assms(6)]
  from build_mapping_string_fits [OF assms(1,2) l fits, of out]
    build_mapping_string_fits [OF assms(1,2) l fits, of out']
  show ?thesis by simp
qed


lemma enumerate_identity:
  "guid (enumerate_buttons_axes d c) = guid c \<and> name (enumerate_buttons_axes d c) = name c"
proof -
  have b: "guid (fold (button_step kb) xs c') = guid c' \<and> name (fold (button_step kb) xs c') = name c'"
    for kb :: "'a word list" and xs c'
    by (induction xs arbitrary: c') (simp_all add: button_step_def)
  have x: "guid (fold (axis_step info ab) xs c') = guid c' \<and>
      name (fold (axis_step info ab) xs c') = name c'"
    for info and ab :: "'a word list" and xs c'
    by (induction xs arbitrary: c') (simp_all add: axis_step_def Let_def split: prod.splits)
  show ?thesis
    by (simp add: enumerate_buttons_axes_def Let_def b x)
qed

lemma review_app_controller:
  "guid (controllers review_app ! nat (sel_ctrl review_app)) = ''03000000790000001100000010010000''"
  "name (controllers review_app ! nat (sel_ctrl review_app)) = ''Buttons''"
proof -
  have c: "controllers review_app ! nat (sel_ctrl review_app) = controller_of button_node"
    by (simp add: review_app_def initial_app_def)
  obtain c0 where co: "controller_of button_node = enumerate_buttons_axes button_pad c0"
    and g: "guid c0 = build_guid \<lparr>bustype = 0x0003, vendor = 0x0079, product = 0x0011,
        version = 0x0110\<rparr>"
    and n: "name c0 = ''Buttons''"
    by (simp add: controller_of_def button_node_def button_pad_def)
  show "guid (controllers review_app ! nat (sel_ctrl review_app)) = ''03000000790000001100000010010000''"
    by (simp add: c co enumerate_identity g build_guid_def guid_array_def hex_def)
  show "name (controllers review_app ! nat (sel_ctrl review_app)) = ''Buttons''"
    by (simp add: c co enumerate_identity n)
qed

lemma print_int_digit:
  assumes "0 \<le> i" and "i < 10"
  shows "print_int i = [char_of (48 + nat i)]"
proof -
  have "nat i < 10"
    using assms by simp
  then have "dec_digits (nat i) = [char_of (48 + nat i)]"
    by (simp add: dec_digits.simps [of "nat i"])
  with assms(1) show ?thesis
    by (simp add: print_int_def)
qed


lemma review_app_mappings:
  "map gcdb_name (mappings review_app) = map gcdb_name init_mappings"
  "\<forall>m \<in> set (mappings review_app). int32 (mapped_index m) \<and> int32 (hat_mask m)"
  by (simp_all add: review_app_def init_mappings_def bind_button_def new_entry_def int32_def)

lemma review_app_line:
  "mapping_line ''03000000790000001100000010010000'' ''Buttons'' (mappings review_app) =
      ''03000000790000001100000010010000,Buttons,'' @
      ''lefttrigger:b0,righttrigger:b1,x:b2,y:b3,a:b4,b:b5,back:b6,start:b7,'' @
      ''leftx:b8,lefty:b9,platform:Linux,''"
  by (simp add: review_app_def mapping_line_def init_mappings_def bind_button_def new_entry_def
      channel_code_def print_int_digit char_of_eq_iff)

theorem build_mapping_string_line_witness:
  "build_mapping_string review_app [] 1024 =
     Inr (''03000000790000001100000010010000,Buttons,'' @
          ''lefttrigger:b0,righttrigger:b1,x:b2,y:b3,a:b4,b:b5,back:b6,start:b7,'' @
          ''leftx:b8,lefty:b9,platform:Linux,'')"
proof -
  have ctl: "0 \<le> sel_ctrl review_app" "sel_ctrl review_app < 8"
    by (simp_all add: review_app_def initial_app_def)
  from build_mapping_string_line [OF ctl review_app_mappings(1) _ _ review_app_mappings(2), of "[]"]
    review_app_line
  show ?thesis
    by (simp add: review_app_controller)
qed

subsection \<open>Exporting from the directory browser\<close>

lemma snprintf_buf_idem: "snprintf_buf n (snprintf_buf n s) = snprintf_buf n s"
  by (simp add: snprintf_buf_def)

lemma browse_select_export:
  assumes sel: "0 \<le> selected (browser a)" "selected (browser a) < 256"
    and exp: "entry_name (entries (browser a) ! nat (selected (browser a))) \<noteq> ''..''"
      "is_dir (entries (browser a) ! nat (selected (browser a))) = 0"
    and ctl: "0 \<le> sel_ctrl a" "sel_ctrl a < 8"
    and str: "build_mapping_string a (mapping_str a) 1024 = Inr s"
  shows "browse_select fs (a, fl) =
     (if fs_can_write fs (export_path (browser_path (browser a)) (guid (controllers a ! nat (sel_ctrl a))))
      then Inr (a\<lparr>mapping_str := s,
                  save_path := export_path (browser_path (browser a))
                    (guid (controllers a ! nat (sel_ctrl a))),
                  state := STATE_REVIEW\<rparr>,
                fl(export_path (browser_path (browser a)) (guid (controllers a ! nat (sel_ctrl a)))
                   \<mapsto> s @ [CHR 0x0A]))
      else Inr (a\<lparr>mapping_str := s\<rparr>, fl))"
proof -
  have sp: "snprintf_buf MAX_PATH_LEN (export_path (browser_path (browser a))
      (guid (controllers a ! nat (sel_ctrl a)))) =
      export_path (browser_path (browser a)) (guid (controllers a ! nat (sel_ctrl a)))"
    by (simp add: export_path_def snprintf_buf_idem)
  show ?thesis
    using sel exp ctl
    by (simp add: browse_select_def Let_def MAX_DIR_ENTRIES_def MAX_CONTROLLERS_def str sp)
qed

lemma browse_key_codes:
  "KEY_ESC = 1" "KEY_BACKSPACE = 14" "KEY_Q = 16" "KEY_ENTER = 28" "KEY_UP = 103"
  "KEY_LEFT = 105" "KEY_DOWN = 108"
  by (simp_all add: KEY_ESC_def KEY_BACKSPACE_def KEY_Q_def KEY_ENTER_def KEY_UP_def
      KEY_LEFT_def KEY_DOWN_def)

lemma update_browse_confirm:
  assumes nav: "read_nav_input a evs tevs = Inr (n, g)"
    and key: "read_keyboard kbd \<notin> {KEY_UP, KEY_DOWN, KEY_LEFT, KEY_BACKSPACE, KEY_Q, KEY_ESC}"
    and sig: "btn_a n \<noteq> 0 \<or> read_keyboard kbd = KEY_ENTER"
    and only: "dy n = 0" "btn_b n = 0" "btn_start n = 0"
    and cnt: "count (browser a) > 0"
  shows "update_browse fs evs tevs kbd (a, fl) = browse_select fs (a, fl)"
proof -
  have g: "g \<noteq> 0 \<or> read_keyboard kbd \<noteq> 0"
    using read_nav_input_got [OF nav] sig by (auto simp: nav_nonzero_def browse_key_codes)
  have "update_browse fs evs tevs kbd (a, fl) = browse_select fs (a, fl)"
    if s: "read_keyboard kbd = 28 \<or> read_keyboard kbd \<noteq> 28 \<and> btn_a n \<noteq> 0 \<and> g \<noteq> 0"
    using s only cnt key
    by (cases "browse_select fs (a, fl)"; elim disjE conjE)
      (simp_all add: update_browse_def nav Let_def browse_key_codes)
  moreover have "read_keyboard kbd = 28 \<or> read_keyboard kbd \<noteq> 28 \<and> btn_a n \<noteq> 0 \<and> g \<noteq> 0"
    using sig g read_nav_input_got [OF nav] by (auto simp: browse_key_codes nav_nonzero_def)
  ultimately show ?thesis
    by blast
qed

lemma export_path_in_dir:
  assumes "dir \<noteq> ''/''" and "length dir \<le> 470" and "length g \<le> 32"
  shows "export_path dir g = dir @ ''/'' @ g @ ''.txt''"
  using assms by (simp add: export_path_def snprintf_buf_def MAX_PATH_LEN_def)

lemma export_path_in_root:
  assumes "length g \<le> 32"
  shows "export_path ''/'' g = ''/'' @ g @ ''.txt''"
  using assms by (simp add: export_path_def snprintf_buf_def MAX_PATH_LEN_def)


text \<open>
  What a confirm does on the export action. In BROWSE, with the cursor on the export
  action, a confirm signal from the controller or the Enter key, with no movement, back
  or quit signal in the same poll, makes \<^verbatim>\<open>update_browse\<close> rebuild the mapping string and
  try to open the file \<open>fp\<close>: the directory path cut to its first 470 characters, a
  slash, the GUID and \<^verbatim>\<open>.txt\<close>; that is \<^verbatim>\<open><GUID>.txt\<close> under the current directory when
  its path has at most 470 characters, and \<^verbatim>\<open>/<GUID>.txt\<close> in the root. If the file can be
  opened, the mapping string and a newline are written to it, its path is recorded as
  the save path and the state becomes REVIEW. If it cannot, no file is written and
  nothing but the rebuilt mapping string changes.
\<close>

lemma export_on_confirm:
  fixes a :: app
  defines "c \<equiv> controllers a ! nat (sel_ctrl a)"
  defines "fp \<equiv> export_path (browser_path (browser a)) (guid c)"
  defines "line \<equiv> mapping_line (guid c) (name c) (mappings a)"
  assumes nav: "read_nav_input a evs tevs = Inr (n, g)"
    and key: "read_keyboard kbd \<notin> {KEY_UP, KEY_DOWN, KEY_LEFT, KEY_BACKSPACE, KEY_Q, KEY_ESC}"
    and sig: "btn_a n \<noteq> 0 \<or> read_keyboard kbd = KEY_ENTER"
    and only: "dy n = 0" "btn_b n = 0" "btn_start n = 0"
    and cnt: "count (browser a) > 0"
    and sel: "0 \<le> selected (browser a)" "selected (browser a) < 256"
    and exp: "entry_name (entries (browser a) ! nat (selected (browser a))) \<noteq> ''..''"
      "is_dir (entries (browser a) ! nat (selected (browser a))) = 0"
    and ctl: "0 \<le> sel_ctrl a" "sel_ctrl a < 8"
    and names: "map gcdb_name (mappings a) = map gcdb_name init_mappings"
    and idl: "length (guid c) \<le> 32" "length (name c) \<le> 255"
    and ints: "\<forall>m \<in> set (mappings a). int32 (mapped_index m) \<and> int32 (hat_mask m)"
  shows "(fs_can_write fs fp \<longrightarrow>
            update_browse fs evs tevs kbd (a, fl) =
              Inr (a\<lparr>mapping_str := line, save_path := fp, state := STATE_REVIEW\<rparr>,
                   fl(fp \<mapsto> line @ [CHR 0x0A])))
       \<and> (\<not> fs_can_write fs fp \<longrightarrow>
            update_browse fs evs tevs kbd (a, fl) = Inr (a\<lparr>mapping_str := line\<rparr>, fl))
       \<and> (browser_path (browser a) \<noteq> ''/'' \<and> length (browser_path (browser a)) \<le> 470 \<longrightarrow>
            fp = browser_path (browser a) @ ''/'' @ guid c @ ''.txt'')
       \<and> (browser_path (browser a) = ''/'' \<longrightarrow> fp = ''/'' @ guid c @ ''.txt'')
       \<and> (length (browser_path (browser a)) > 470 \<longrightarrow>
            fp = take 470 (browser_path (browser a)) @ ''/'' @ guid c @ ''.txt'')"
proof -
  have "length (mappings a) = length (map gcdb_name init_mappings)"
    using names by (metis length_map)
  then have l: "length (mappings a) = 10"
    by (simp add: init_mappings_def)
  have fits: "length line < 1024"
    unfolding line_def by (rule mapping_line_length [OF names idl ints])
  have str: "build_mapping_string a (mapping_str a) 1024 = Inr line"
    unfolding line_def c_def
    by (rule build_mapping_string_fits [OF ctl l fits [unfolded line_def c_def]])
  have u: "update_browse fs evs tevs kbd (a, fl) = browse_select fs (a, fl)"
    by (rule update_browse_confirm [OF nav key sig only cnt])
  note b = browse_select_export [OF sel exp ctl str, of fs fl, folded c_def, folded fp_def]
  have long: "fp = take 470 (browser_path (browser a)) @ ''/'' @ guid c @ ''.txt''"
    if "length (browser_path (browser a)) > 470"
  proof -
    from that have "browser_path (browser a) \<noteq> ''/''"
      by auto
    with idl(1) show ?thesis
      by (simp add: fp_def export_path_def snprintf_buf_def MAX_PATH_LEN_def)
  qed
  show ?thesis
    using u b export_path_in_dir [of "browser_path (browser a)" "guid c"]
      export_path_in_root [of "guid c"] idl(1) long
    by (simp add: fp_def)
qed

lemma read_nav_input_browse:
  "read_nav_input (a\<lparr>state := s, browser := b\<rparr>) evs tevs = read_nav_input a evs tevs"
proof -
  have t: "read_thec64_nav (a\<lparr>state := s, browser := b\<rparr>) tevs n = read_thec64_nav a tevs n"
    for n
    by (simp add: read_thec64_nav_def)
  show ?thesis
    by (simp add: read_nav_input_def t split: sum.splits)
qed

lemma browse_app_facts:
  "read_nav_input (browse_app dir) [press_trigger] [] =
     Inr (\<lparr>dy = 0, dx = 0, btn_a = 1, btn_b = 0, btn_start = 0\<rparr>, 1)"
  "count (browser (browse_app dir)) = 2" "selected (browser (browse_app dir)) = 1"
  "entries (browser (browse_app dir)) ! Suc 0 = \<lparr>entry_name = ''>> Export here <<'', is_dir = 0\<rparr>"
  "sel_ctrl (browse_app dir) = 0"
  "mappings (browse_app dir) = mappings review_app"
  "controllers (browse_app dir) ! 0 = controllers review_app ! 0"
  "browser_path (browser (browse_app dir)) = dir"
  by (simp_all add: browse_app_def read_nav_input_browse review_app_nav export_rows_def)
    (simp_all add: review_app_def)


lemma browse_app_identity:
  "guid (controllers (browse_app dir) ! 0) = ''03000000790000001100000010010000''"
  "name (controllers (browse_app dir) ! 0) = ''Buttons''"
  using review_app_controller by (simp_all add: browse_app_facts(7) review_app_def)

lemma browse_app_string:
  "build_mapping_string (browse_app dir) out 1024 =
     Inr (''03000000790000001100000010010000,Buttons,'' @
          ''lefttrigger:b0,righttrigger:b1,x:b2,y:b3,a:b4,b:b5,back:b6,start:b7,'' @
          ''leftx:b8,lefty:b9,platform:Linux,'')"
proof -
  note f = browse_app_facts [of dir]
  have "length (mappings (browse_app dir)) = 10"
    by (simp add: f review_app_def init_mappings_def)
  from build_mapping_string_fits [of "browse_app dir" 1024 out, OF _ _ this]
  show ?thesis
    by (simp add: f(5) browse_app_identity f(6) review_app_line)
qed

lemma export_on_confirm_example:
  "update_browse writable_fs [press_trigger] [] [] (browse_app ''/mnt'', Map.empty) =
     Inr ((browse_app ''/mnt'')
            \<lparr>mapping_str := ''03000000790000001100000010010000,Buttons,'' @
               ''lefttrigger:b0,righttrigger:b1,x:b2,y:b3,a:b4,b:b5,back:b6,start:b7,'' @
               ''leftx:b8,lefty:b9,platform:Linux,'',
             save_path := ''/mnt/03000000790000001100000010010000.txt'',
             state := STATE_REVIEW\<rparr>,
          [''/mnt/03000000790000001100000010010000.txt'' \<mapsto>
             ''03000000790000001100000010010000,Buttons,'' @
             ''lefttrigger:b0,righttrigger:b1,x:b2,y:b3,a:b4,b:b5,back:b6,start:b7,'' @
             ''leftx:b8,lefty:b9,platform:Linux,'' @ [CHR 0x0A]])
   \<and> update_browse empty_fs [press_trigger] [] [] (browse_app ''/mnt'', Map.empty) =
     Inr ((browse_app ''/mnt'')
            \<lparr>mapping_str := ''03000000790000001100000010010000,Buttons,'' @
               ''lefttrigger:b0,righttrigger:b1,x:b2,y:b3,a:b4,b:b5,back:b6,start:b7,'' @
               ''leftx:b8,lefty:b9,platform:Linux,''\<rparr>,
          Map.empty)"
proof -
  note f = browse_app_facts [of "''/mnt''"]
  have names: "map gcdb_name (mappings (browse_app ''/mnt'')) = map gcdb_name init_mappings"
    and ints: "\<forall>m \<in> set (mappings (browse_app ''/mnt'')). int32 (mapped_index m) \<and> int32 (hat_mask m)"
    using review_app_mappings by (simp_all add: f(6))
  note t = export_on_confirm [where kbd = "[]", OF f(1) _ _ _ _ _ _ _ _ _ _ _ _ names _ _ ints]
  from t [of writable_fs Map.empty] t [of empty_fs Map.empty]
  show ?thesis
    by (simp add: f(2-5,8) browse_app_identity f(6) review_app_line
        writable_fs_def empty_fs_def browse_key_codes)
qed

text \<open>
  C7. The export does not always write \<^verbatim>\<open><GUID>.txt\<close> under the chosen directory. In
  a directory whose path has 471 characters, a confirm on the export action writes the
  mapping string to, and records as save path, the file under the path cut to 470
  characters, which names another directory; no file appears under the directory the
  browser is in.
\<close>

theorem export_long_directory_failing_input:
  "update_browse writable_fs [press_trigger] [] [] (browse_app long_dir, Map.empty) =
     Inr ((browse_app long_dir)
            \<lparr>mapping_str := ''03000000790000001100000010010000,Buttons,'' @
               ''lefttrigger:b0,righttrigger:b1,x:b2,y:b3,a:b4,b:b5,back:b6,start:b7,'' @
               ''leftx:b8,lefty:b9,platform:Linux,'',
             save_path := take 470 long_dir @ ''/03000000790000001100000010010000.txt'',
             state := STATE_REVIEW\<rparr>,
          [take 470 long_dir @ ''/03000000790000001100000010010000.txt'' \<mapsto>
             ''03000000790000001100000010010000,Buttons,'' @
             ''lefttrigger:b0,righttrigger:b1,x:b2,y:b3,a:b4,b:b5,back:b6,start:b7,'' @
             ''leftx:b8,lefty:b9,platform:Linux,'' @ [CHR 0x0A]])
   \<and> browser_path (browser (browse_app long_dir)) = long_dir
   \<and> take 470 long_dir @ ''/03000000790000001100000010010000.txt'' \<noteq>
       long_dir @ ''/03000000790000001100000010010000.txt''"
proof -
  note f = browse_app_facts [of long_dir]
  have u: "update_browse writable_fs [press_trigger] [] [] (browse_app long_dir, Map.empty) =
      browse_select writable_fs (browse_app long_dir, Map.empty)"
    by (rule update_browse_confirm [OF f(1)]) (simp_all add: f browse_key_codes)
  have len: "length long_dir = 471"
    by (simp add: long_dir_def)
  have ne: "long_dir \<noteq> ''/''"
  proof
    assume "long_dir = ''/''"
    then have "length long_dir = length ''/''" by (rule arg_cong)
    with len show False by simp
  qed
  have p: "export_path long_dir ''03000000790000001100000010010000'' =
      take 470 long_dir @ ''/03000000790000001100000010010000.txt''"
    using ne by (simp add: export_path_def snprintf_buf_def MAX_PATH_LEN_def)
  have b: "browse_select writable_fs (browse_app long_dir, Map.empty) =
     Inr ((browse_app long_dir)
            \<lparr>mapping_str := ''03000000790000001100000010010000,Buttons,'' @
               ''lefttrigger:b0,righttrigger:b1,x:b2,y:b3,a:b4,b:b5,back:b6,start:b7,'' @
               ''leftx:b8,lefty:b9,platform:Linux,'',
             save_path := take 470 long_dir @ ''/03000000790000001100000010010000.txt'',
             state := STATE_REVIEW\<rparr>,
          [take 470 long_dir @ ''/03000000790000001100000010010000.txt'' \<mapsto>
             ''03000000790000001100000010010000,Buttons,'' @
             ''lefttrigger:b0,righttrigger:b1,x:b2,y:b3,a:b4,b:b5,back:b6,start:b7,'' @
             ''leftx:b8,lefty:b9,platform:Linux,'' @ [CHR 0x0A]])"
    using browse_select_export [of "browse_app long_dir" _ writable_fs Map.empty,
        OF _ _ _ _ _ _ browse_app_string [of long_dir "mapping_str (browse_app long_dir)"]]
    by (simp add: f(2-5,8) browse_app_identity p writable_fs_def)
  have "length (take 470 long_dir @ ''/03000000790000001100000010010000.txt'') \<noteq>
      length (long_dir @ ''/03000000790000001100000010010000.txt'')"
    by (simp add: len)
  then have d: "take 470 long_dir @ ''/03000000790000001100000010010000.txt'' \<noteq>
       long_dir @ ''/03000000790000001100000010010000.txt''"
    by (metis (no_types))
  from u b d f(8) show ?thesis
    by simp
qed

end
